theory Spec2Isabelle
  imports Complex_Main "HOL-Library.Char_ord"
begin

section \<open>Strings\<close>

text \<open>
  Python \<open>str\<close> values are modelled as \<open>string\<close>: one \<open>char\<close> per code point, for
  code points below 256 (Latin-1).  The character classes below are Python's classes
  restricted to that range.
\<close>

definition NL :: char where
  "NL = CHR 0x0A"

definition in_range :: "char \<Rightarrow> char \<Rightarrow> char \<Rightarrow> bool" where
  \<comment> \<open>the code point of c lies between those of lo and hi\<close>
  "in_range lo hi c = (lo \<le> c \<and> c \<le> hi)"

definition is_space :: "char \<Rightarrow> bool" where
  \<comment> \<open>\<open>str.isspace\<close> and the pattern class \<open>\s\<close>: 0x09-0x0D, 0x1C-0x20, 0x85, 0xA0\<close>
  "is_space c =
     (in_range (CHR 0x09) (CHR 0x0D) c \<or> in_range (CHR 0x1C) (CHR 0x20) c \<or>
      c = CHR 0x85 \<or> c = CHR 0xA0)"

definition is_digit :: "char \<Rightarrow> bool" where
  \<comment> \<open>the pattern class \<open>\d\<close>\<close>
  "is_digit c = in_range (CHR ''0'') (CHR ''9'') c"

fun with_bit5 :: "bool \<Rightarrow> char \<Rightarrow> char" where
  \<comment> \<open>the character whose code point has bit 5 (the value 32) set as given\<close>
  "with_bit5 b (Char b0 b1 b2 b3 b4 b5 b6 b7) = Char b0 b1 b2 b3 b4 b b6 b7"

definition lower_char :: "char \<Rightarrow> char" where
  \<comment> \<open>\<open>str.lower\<close> on one code point: A-Z and the Latin-1 capitals 0xC0-0xDE (not 0xD7)
      move up by 32\<close>
  "lower_char c =
     (if in_range (CHR ''A'') (CHR ''Z'') c \<or> (in_range (CHR 0xC0) (CHR 0xDE) c \<and> c \<noteq> CHR 0xD7)
      then with_bit5 True c else c)"

definition upper_char :: "char \<Rightarrow> char" where
  \<comment> \<open>the upper case of one code point, where it stays below 256: a-z and 0xE0-0xFE
      (not 0xF7) move down by 32\<close>
  "upper_char c =
     (if in_range (CHR ''a'') (CHR ''z'') c \<or> (in_range (CHR 0xE0) (CHR 0xFE) c \<and> c \<noteq> CHR 0xF7)
      then with_bit5 False c else c)"

definition lower :: "string \<Rightarrow> string" where
  "lower s = map lower_char s"

definition strip :: "string \<Rightarrow> string" where
  \<comment> \<open>\<open>str.strip()\<close>\<close>
  "strip s = rev (dropWhile is_space (rev (dropWhile is_space s)))"

fun join :: "string \<Rightarrow> string list \<Rightarrow> string" where
  \<comment> \<open>\<open>sep.join(xs)\<close>\<close>
  "join sep [] = []"
| "join sep [x] = x"
| "join sep (x # y # ys) = x @ sep @ join sep (y # ys)"

definition startswith :: "string \<Rightarrow> string \<Rightarrow> bool" where
  \<comment> \<open>\<open>s.startswith(p)\<close>\<close>
  "startswith s p = (take (length p) s = p)"

fun contains :: "string \<Rightarrow> string \<Rightarrow> bool" where
  \<comment> \<open>\<open>k in s\<close> for strings\<close>
  "contains [] k = (k = [])"
| "contains (c # cs) k = (startswith (c # cs) k \<or> contains cs k)"

fun dict_fromkeys :: "'a list \<Rightarrow> 'a list \<Rightarrow> 'a list" where
  \<comment> \<open>\<open>list(dict.fromkeys(xs))\<close>: the keys of a dict in insertion order; the first
      argument is the keys inserted so far\<close>
  "dict_fromkeys keys [] = keys"
| "dict_fromkeys keys (x # xs) =
     dict_fromkeys (if x \<in> set keys then keys else keys @ [x]) xs"

section \<open>Regular expressions\<close>

text \<open>
  The fragment of Python's \<open>re\<close> syntax that the patterns of \<open>backend.py\<close> use, with the
  backtracking semantics of the library: a match is the first one in the search order
  (leftmost start; greedy repetitions longest first, lazy ones shortest first;
  alternatives left to right).
\<close>

datatype cclass =
    Lit char                      \<comment> \<open>a literal character\<close>
  | Ranges "(char \<times> char) list"   \<comment> \<open>\<open>[A-Z]\<close>, \<open>[A-Za-z]\<close>, \<open>[.!?]\<close>\<close>
  | Space                         \<comment> \<open>\<open>\s\<close>\<close>
  | Digit                         \<comment> \<open>\<open>\d\<close>\<close>
  | Dot                           \<comment> \<open>\<open>.\<close>: anything but a newline\<close>

datatype regex =
    Emp                           \<comment> \<open>the empty pattern\<close>
  | One cclass                    \<comment> \<open>one character of a class\<close>
  | Rep bool nat cclass           \<comment> \<open>\<open>c*\<close>, \<open>c+\<close> (greedy) and \<open>c+?\<close> (lazy): minimum count\<close>
  | Cat regex regex
  | Alt regex regex
  | Grp nat regex                 \<comment> \<open>capturing group number n\<close>
  | Eos                           \<comment> \<open>\<open>$\<close>\<close>
  | Lookbehind cclass             \<comment> \<open>\<open>(?<=c)\<close>\<close>

fun cmem :: "bool \<Rightarrow> cclass \<Rightarrow> char \<Rightarrow> bool" where
  \<comment> \<open>membership of a character in a class; the flag is \<open>re.IGNORECASE\<close>\<close>
  "cmem ic (Lit a) c = (if ic then lower_char c = lower_char a else c = a)"
| "cmem ic (Ranges rs) c =
     (\<exists>(lo, hi) \<in> set rs. in_range lo hi c \<or>
        (ic \<and> (in_range lo hi (lower_char c) \<or> in_range lo hi (upper_char c))))"
| "cmem ic Space c = is_space c"
| "cmem ic Digit c = is_digit c"
| "cmem ic Dot c = (c \<noteq> NL)"

type_synonym groups = "(nat \<times> string) list"
type_synonym mstate = "char option \<times> string \<times> groups"

definition advance :: "mstate \<Rightarrow> nat \<Rightarrow> mstate" where
  \<comment> \<open>consume k characters: the state after them\<close>
  "advance st k = (case st of (prev, rest, g) \<Rightarrow>
     (if k = 0 then prev else Some (rest ! (k - 1)), drop k rest, g))"

fun rmatch :: "bool \<Rightarrow> regex \<Rightarrow> mstate \<Rightarrow> mstate list" where
  \<comment> \<open>all ways to match the pattern at the front of the rest, in the search order\<close>
  "rmatch ic Emp st = [st]"
| "rmatch ic (One c) (prev, rest, g) =
     (case rest of [] \<Rightarrow> [] | x # xs \<Rightarrow> if cmem ic c x then [(Some x, xs, g)] else [])"
| "rmatch ic (Rep greedy n c) (prev, rest, g) =
     (let m = length (takeWhile (cmem ic c) rest);
          ks = [n..<Suc m]
      in map (advance (prev, rest, g)) (if greedy then rev ks else ks))"
| "rmatch ic (Cat r1 r2) st = concat (map (rmatch ic r2) (rmatch ic r1 st))"
| "rmatch ic (Alt r1 r2) st = rmatch ic r1 st @ rmatch ic r2 st"
| "rmatch ic (Grp i r) (prev, rest, g) =
     map (\<lambda>(prev', rest', g'). (prev', rest', (i, take (length rest - length rest') rest) # g'))
       (rmatch ic r (prev, rest, g))"
| "rmatch ic Eos (prev, rest, g) =
     (if rest = [] \<or> rest = [NL] then [(prev, rest, g)] else [])"
| "rmatch ic (Lookbehind c) (prev, rest, g) =
     (case prev of None \<Rightarrow> [] | Some x \<Rightarrow> if cmem ic c x then [(prev, rest, g)] else [])"

record rmatch_obj =
  whole :: string       \<comment> \<open>\<open>m.group(0)\<close>\<close>
  captured :: groups

definition group :: "rmatch_obj \<Rightarrow> nat \<Rightarrow> string option" where
  \<comment> \<open>\<open>m.group(i)\<close> for i > 0: \<open>None\<close> when the group took no part in the match\<close>
  "group m i = map_of (captured m) i"

definition match_at :: "bool \<Rightarrow> regex \<Rightarrow> char option \<Rightarrow> string \<Rightarrow> rmatch_obj option" where
  "match_at ic r prev s =
     (case rmatch ic r (prev, s, []) of
        [] \<Rightarrow> None
      | (prev', rest', g') # _ \<Rightarrow>
          Some \<lparr>whole = take (length s - length rest') s, captured = g'\<rparr>)"

fun search_from :: "bool \<Rightarrow> regex \<Rightarrow> char option \<Rightarrow> string \<Rightarrow> rmatch_obj option" where
  "search_from ic r prev [] = match_at ic r prev []"
| "search_from ic r prev (c # cs) =
     (case match_at ic r prev (c # cs) of
        Some m \<Rightarrow> Some m
      | None \<Rightarrow> search_from ic r (Some c) cs)"

definition re_search :: "bool \<Rightarrow> regex \<Rightarrow> string \<Rightarrow> rmatch_obj option" where
  \<comment> \<open>\<open>re.search(pattern, s)\<close>, or with \<open>re.IGNORECASE\<close> when the flag is set\<close>
  "re_search ic r s = search_from ic r None s"

fun split_scan :: "regex \<Rightarrow> char option \<Rightarrow> string \<Rightarrow> string \<Rightarrow> nat \<Rightarrow> string list" where
  \<comment> \<open>the scan of \<open>re.split\<close>: the piece collected so far (reversed), the text left, and the
      number of characters left of the separator just matched\<close>
  "split_scan r prev cur [] skip = [rev cur]"
| "split_scan r prev cur (c # cs) skip =
     (if 0 < skip then split_scan r (Some c) cur cs (skip - 1)
      else case match_at False r prev (c # cs) of
             None \<Rightarrow> split_scan r (Some c) (c # cur) cs 0
           | Some m \<Rightarrow>
               (case length (whole m) of
                  0 \<Rightarrow> split_scan r (Some c) (c # cur) cs 0
                | Suc k \<Rightarrow> rev cur # split_scan r (Some c) [] cs k))"

definition re_split :: "regex \<Rightarrow> string \<Rightarrow> string list" where
  \<comment> \<open>\<open>re.split(pattern, s)\<close> for a pattern without capturing groups whose matches are
      never empty\<close>
  "re_split r s = split_scan r None [] s 0"

fun lit :: "string \<Rightarrow> regex" where
  \<comment> \<open>a literal word\<close>
  "lit [] = Emp"
| "lit [c] = One (Lit c)"
| "lit (c # cs) = Cat (One (Lit c)) (lit cs)"

fun cats :: "regex \<Rightarrow> regex list \<Rightarrow> regex" where
  \<comment> \<open>a sequence of patterns\<close>
  "cats r [] = r"
| "cats r (x # xs) = Cat r (cats x xs)"

fun alts :: "regex \<Rightarrow> regex list \<Rightarrow> regex" where
  \<comment> \<open>\<open>(?:a|b|c)\<close>\<close>
  "alts r [] = r"
| "alts r (x # xs) = Alt r (alts x xs)"

section \<open>The local fallback extractor\<close>

definition name_group :: regex where
  \<comment> \<open>\<open>([A-Z][a-z]+)\<close>\<close>
  "name_group =
     Grp 1 (Cat (One (Ranges [(CHR ''A'', CHR ''Z'')])) (Rep True 1 (Ranges [(CHR ''a'', CHR ''z'')])))"

definition clause_tail :: "regex list" where
  \<comment> \<open>\<open>\s+(.+?)(?:\.|$)\<close>\<close>
  "clause_tail = [Rep True 1 Space, Grp 2 (Rep False 1 Dot), Alt (One (Lit CHR ''.'')) Eos]"

definition task_pattern_1 :: regex where
  \<comment> \<open>\<open>([A-Z][a-z]+)\s+(?:will|should|needs to|is going to|must|has to)\s+(.+?)(?:\.|$)\<close>\<close>
  "task_pattern_1 =
     cats name_group
       ([Rep True 1 Space,
         alts (lit ''will'') [lit ''should'', lit ''needs to'', lit ''is going to'',
                              lit ''must'', lit ''has to'']] @ clause_tail)"

definition task_pattern_2 :: regex where
  \<comment> \<open>\<open>([A-Z][a-z]+)\s*:\s*(?:will|should|needs to|must)\s+(.+?)(?:\.|$)\<close>\<close>
  "task_pattern_2 =
     cats name_group
       ([Rep True 0 Space, One (Lit CHR '':''), Rep True 0 Space,
         alts (lit ''will'') [lit ''should'', lit ''needs to'', lit ''must'']] @ clause_tail)"

definition task_pattern_3 :: regex where
  \<comment> \<open>\<open>([A-Z][a-z]+)\s+(?:assigned|tasked)\s+to\s+(.+?)(?:\.|$)\<close>\<close>
  "task_pattern_3 =
     cats name_group
       ([Rep True 1 Space, alts (lit ''assigned'') [lit ''tasked''],
         Rep True 1 Space, lit ''to''] @ clause_tail)"

definition TASK_PATTERNS :: "regex list" where
  "TASK_PATTERNS = [task_pattern_1, task_pattern_2, task_pattern_3]"

definition by_ws :: "regex \<Rightarrow> regex" where
  \<comment> \<open>\<open>by\s+\<close> followed by the pattern\<close>
  "by_ws r = cats (lit ''by'') [Rep True 1 Space, r]"

definition deadline_pattern_1 :: regex where
  \<comment> \<open>\<open>by\s+[A-Za-z]+\s*\d*\<close>\<close>
  "deadline_pattern_1 =
     by_ws (cats (Rep True 1 (Ranges [(CHR ''A'', CHR ''Z''), (CHR ''a'', CHR ''z'')]))
              [Rep True 0 Space, Rep True 0 Digit])"

definition deadline_pattern_9 :: regex where
  \<comment> \<open>\<open>before\s+next\s+meeting\<close>\<close>
  "deadline_pattern_9 =
     cats (lit ''before'') [Rep True 1 Space, lit ''next'', Rep True 1 Space, lit ''meeting'']"

definition DEADLINE_PATTERNS :: "regex list" where
  \<comment> \<open>the second to the eighth are \<open>by\s+\<close> and a literal phrase\<close>
  "DEADLINE_PATTERNS =
    [deadline_pattern_1,
     by_ws (lit ''end of week''),
     by_ws (lit ''tomorrow''),
     by_ws (lit ''next week''),
     by_ws (lit ''Friday''),
     by_ws (lit ''Monday''),
     by_ws (lit ''Thursday''),
     by_ws (lit ''Sunday''),
     deadline_pattern_9]"

definition SENTENCE_SPLIT :: regex where
  \<comment> \<open>\<open>(?<=[.!?])\s+\<close>\<close>
  "SENTENCE_SPLIT =
     Cat (Lookbehind (Ranges [(CHR ''.'', CHR ''.''), (CHR ''!'', CHR ''!''), (CHR ''?'', CHR ''?'')]))
         (Rep True 1 Space)"

definition KEYWORDS :: "string list" where
  "KEYWORDS = [''should'', ''need to'', ''must'', ''will'', ''targeting'', ''aim to'']"

datatype exc =
    RuntimeError string
  | ValueError string
  | AttributeError string
  | TypeError string
  | LibraryError string      \<comment> \<open>an exception raised inside an external library or the system\<close>

fun exc_str :: "exc \<Rightarrow> string" where
  \<comment> \<open>\<open>str(e)\<close>: the message\<close>
  "exc_str (RuntimeError m) = m"
| "exc_str (ValueError m) = m"
| "exc_str (AttributeError m) = m"
| "exc_str (TypeError m) = m"
| "exc_str (LibraryError m) = m"

definition quoted :: "string \<Rightarrow> string" where
  \<comment> \<open>the text between single quotes\<close>
  "quoted s = [CHR 0x27] @ s @ [CHR 0x27]"

definition no_attribute :: "string \<Rightarrow> string \<Rightarrow> exc" where
  \<comment> \<open>the AttributeError of a method call on a value that has no such method\<close>
  "no_attribute type_name attr =
     AttributeError (quoted type_name @ '' object has no attribute '' @ quoted attr)"

record Task =
  speaker :: "string option"
  assignee :: "string option"
  task :: string
  deadline :: "string option"
  source :: string

record structured_record =
  summary :: string
  action_points :: "string list"
  tasks :: "Task list"
  deadlines :: "string list"
  speakers :: "string list"

record extract_state =
  acc_action_points :: "string list"
  acc_tasks :: "Task list"
  acc_deadlines :: "string list"

fun first_deadline :: "regex list \<Rightarrow> string \<Rightarrow> string option" where
  \<comment> \<open>the inner loop over the deadline patterns, which breaks at the first match\<close>
  "first_deadline [] s = None"
| "first_deadline (dp # dps) s =
     (case re_search True dp s of
        Some md \<Rightarrow> Some (whole md)
      | None \<Rightarrow> first_deadline dps s)"

fun task_loop :: "regex list \<Rightarrow> string \<Rightarrow> extract_state \<Rightarrow> exc + extract_state" where
  \<comment> \<open>\<open>for pat in TASK_PATTERNS\<close>\<close>
  "task_loop [] s st = Inr st"
| "task_loop (pat # pats) s st =
     (case re_search False pat s of
        None \<Rightarrow> task_loop pats s st
      | Some m \<Rightarrow>
          (case group m 2 of
             None \<Rightarrow> Inl (no_attribute ''NoneType'' ''strip'')   \<comment> \<open>\<open>None.strip()\<close>\<close>
           | Some task_text \<Rightarrow>
               let dl = first_deadline DEADLINE_PATTERNS s;
                   st' = st\<lparr>acc_deadlines := acc_deadlines st @ (case dl of None \<Rightarrow> [] | Some d \<Rightarrow> [d]),
                           acc_tasks := acc_tasks st @
                             [\<lparr>speaker = group m 1, assignee = group m 1, task = strip task_text,
                               deadline = dl, source = s\<rparr>]\<rparr>
               in task_loop pats s st'))"

fun deadline_loop :: "regex list \<Rightarrow> string \<Rightarrow> string list \<Rightarrow> string list" where
  \<comment> \<open>\<open>for dp in DEADLINE_PATTERNS\<close>, the loop after the task patterns: no break\<close>
  "deadline_loop [] s ds = ds"
| "deadline_loop (dp # dps) s ds =
     (case re_search True dp s of
        Some md \<Rightarrow> deadline_loop dps s (ds @ [whole md])
      | None \<Rightarrow> deadline_loop dps s ds)"

definition sentence_step :: "string \<Rightarrow> extract_state \<Rightarrow> exc + extract_state" where
  \<comment> \<open>the body of \<open>for s in sentences\<close>\<close>
  "sentence_step s st =
     (let sl = lower s;
          st1 = (if \<exists>k \<in> set KEYWORDS. contains sl k
                 then st\<lparr>acc_action_points := acc_action_points st @ [s]\<rparr> else st)
      in case task_loop TASK_PATTERNS s st1 of
           Inl e \<Rightarrow> Inl e
         | Inr st2 \<Rightarrow> Inr (st2\<lparr>acc_deadlines := deadline_loop DEADLINE_PATTERNS s (acc_deadlines st2)\<rparr>))"

fun sentences_loop :: "string list \<Rightarrow> extract_state \<Rightarrow> exc + extract_state" where
  "sentences_loop [] st = Inr st"
| "sentences_loop (s # ss) st =
     (case sentence_step s st of Inl e \<Rightarrow> Inl e | Inr st' \<Rightarrow> sentences_loop ss st')"

definition first_seen :: "'a list \<Rightarrow> 'a list" where
  \<comment> \<open>the entries of a list at their first occurrence, in the order of the list\<close>
  "first_seen xs = map ((!) xs) (filter (\<lambda>i. xs ! i \<notin> set (take i xs)) [0..<length xs])"

definition init_state :: extract_state where
  \<comment> \<open>the three empty lists before the loop over the sentences\<close>
  "init_state = \<lparr>acc_action_points = [], acc_tasks = [], acc_deadlines = []\<rparr>"

definition local_extract :: "string \<Rightarrow> exc + structured_record" where
  "local_extract text =
     (let sentences = re_split SENTENCE_SPLIT text;
          summary0 = join '' '' (take 3 sentences)
      in case sentences_loop sentences init_state of
           Inl e \<Rightarrow> Inl e
         | Inr st \<Rightarrow>
             Inr \<lparr>summary = (if strip summary0 \<noteq> [] then strip summary0 else ''No summary available.''),
                  action_points = dict_fromkeys [] (acc_action_points st),
                  tasks = acc_tasks st,
                  deadlines = dict_fromkeys [] (acc_deadlines st),
                  speakers = []\<rparr>)"

section \<open>JSON values and the environment\<close>

text \<open>
  The value of \<open>json.loads\<close>, and every value that the pipeline passes on from the
  extraction: Python's \<open>None\<close>, \<open>bool\<close>, \<open>int\<close>, \<open>float\<close>, \<open>str\<close>, \<open>list\<close> and
  \<open>dict\<close>.  A dict is the association list of its items in insertion order.
\<close>

datatype pyfloat =
    Finite real
  | Infinite bool      \<comment> \<open>\<open>inf\<close> (True) and \<open>-inf\<close>\<close>
  | NaN

datatype json =
    JNull
  | JBool bool
  | JInt int
  | JFloat pyfloat
  | JStr string
  | JArr "json list"
  | JObj "(string \<times> json) list"

type_synonym dict = "(string \<times> json) list"

type_synonym byte = char

datatype audio = Audio nat nat "int list"    \<comment> \<open>frame rate, channels, samples\<close>

record segment =
  seg_start :: pyfloat
  seg_end :: pyfloat
  seg_text :: string

datatype gen_call =
    ExtractCall string           \<comment> \<open>the extraction prompt, for a transcript\<close>
  | EmailCall json json          \<comment> \<open>the e-mail prompt, for a summary and the tasks\<close>
  | WhatsappCall json            \<comment> \<open>the recap prompt, for a summary\<close>
  | TranslateCall json string    \<comment> \<open>the translation prompt, for a summary and a language\<close>

text \<open>
  What the program gets from outside: the generation model, the libraries and the
  system.  The model's answer may depend on the prompt and on how many calls were made
  before; it is the \<open>text\<close> of the response (possibly \<open>None\<close>) or an exception.
\<close>

record env =
  gemini_model :: bool                                  \<comment> \<open>\<open>GEMINI_MODEL is not None\<close>\<close>
  generate_content :: "nat \<Rightarrow> gen_call \<Rightarrow> exc + string option"
  json_loads :: "string \<Rightarrow> exc + json"
  py_repr :: "json \<Rightarrow> string"                          \<comment> \<open>\<open>str\<close> of a number, a list or a dict\<close>
  gettempdir :: string
  with_suffix_wav :: "string \<Rightarrow> string"                 \<comment> \<open>\<open>path.with_suffix(".wav")\<close>\<close>
  from_file :: "byte list \<Rightarrow> exc + audio"               \<comment> \<open>\<open>AudioSegment.from_file\<close>\<close>
  to_mono_16k :: "audio \<Rightarrow> audio"
  export_wav :: "audio \<Rightarrow> (exc \<times> byte list option) + byte list"
      \<comment> \<open>\<open>audio.export\<close>: the file written, or an exception and what it left of the file\<close>
  whisper_transcribe :: "byte list \<Rightarrow> exc + segment list"
  unlink_fails :: "string \<Rightarrow> bool"

record world =
  files :: "string \<rightharpoonup> byte list"       \<comment> \<open>the files, by path\<close>
  calls :: "gen_call list"              \<comment> \<open>the calls made to the generation model\<close>

definition call_model :: "env \<Rightarrow> gen_call \<Rightarrow> world \<Rightarrow> (exc + string option) \<times> world" where
  \<comment> \<open>\<open>GEMINI_MODEL.generate_content(prompt, ...)\<close> and the \<open>text\<close> of the response\<close>
  "call_model e c w = (generate_content e (length (calls w)) c, w\<lparr>calls := calls w @ [c]\<rparr>)"

definition text_or_empty :: "string option \<Rightarrow> string" where
  \<comment> \<open>\<open>resp.text or ""\<close>\<close>
  "text_or_empty t = (case t of None \<Rightarrow> [] | Some s \<Rightarrow> s)"

fun truthy :: "env \<Rightarrow> json \<Rightarrow> bool" where
  "truthy e JNull = False"
| "truthy e (JBool b) = b"
| "truthy e (JInt i) = (i \<noteq> 0)"
| "truthy e (JFloat f) = (f \<noteq> Finite 0)"
| "truthy e (JStr s) = (s \<noteq> [])"
| "truthy e (JArr xs) = (xs \<noteq> [])"
| "truthy e (JObj d) = (d \<noteq> [])"

definition py_or :: "env \<Rightarrow> json \<Rightarrow> json \<Rightarrow> json" where
  \<comment> \<open>\<open>a or b\<close>\<close>
  "py_or e a b = (if truthy e a then a else b)"

fun py_str :: "env \<Rightarrow> json \<Rightarrow> string" where
  \<comment> \<open>a value inside an f-string\<close>
  "py_str e JNull = ''None''"
| "py_str e (JBool b) = (if b then ''True'' else ''False'')"
| "py_str e (JStr s) = s"
| "py_str e v = py_repr e v"

fun type_name :: "json \<Rightarrow> string" where
  "type_name JNull = ''NoneType''"
| "type_name (JBool b) = ''bool''"
| "type_name (JInt i) = ''int''"
| "type_name (JFloat f) = ''float''"
| "type_name (JStr s) = ''str''"
| "type_name (JArr xs) = ''list''"
| "type_name (JObj d) = ''dict''"

fun py_iter :: "json \<Rightarrow> exc + json list" where
  \<comment> \<open>the items of \<open>for x in v\<close>\<close>
  "py_iter (JArr xs) = Inr xs"
| "py_iter (JStr s) = Inr (map (\<lambda>c. JStr [c]) s)"
| "py_iter (JObj d) = Inr (map (\<lambda>kv. JStr (fst kv)) d)"
| "py_iter v = Inl (TypeError (quoted (type_name v) @ '' object is not iterable''))"

definition dict_get :: "dict \<Rightarrow> string \<Rightarrow> json" where
  \<comment> \<open>\<open>d.get(k)\<close>\<close>
  "dict_get d k = (case map_of d k of None \<Rightarrow> JNull | Some v \<Rightarrow> v)"

definition dict_get_default :: "dict \<Rightarrow> string \<Rightarrow> json \<Rightarrow> json" where
  \<comment> \<open>\<open>d.get(k, default)\<close>\<close>
  "dict_get_default d k dflt = (case map_of d k of None \<Rightarrow> dflt | Some v \<Rightarrow> v)"

definition setdefault :: "dict \<Rightarrow> string \<Rightarrow> json \<Rightarrow> dict" where
  \<comment> \<open>the dict after \<open>d.setdefault(k, v)\<close>\<close>
  "setdefault d k v = (case map_of d k of None \<Rightarrow> d @ [(k, v)] | Some old \<Rightarrow> d)"

section \<open>Structured extraction by the model\<close>

definition str_find :: "char \<Rightarrow> string \<Rightarrow> nat option" where
  \<comment> \<open>\<open>s.find(c)\<close>, with \<open>None\<close> for -1\<close>
  "str_find c s = (if c \<in> set s then Some (length (takeWhile (\<lambda>x. x \<noteq> c) s)) else None)"

definition str_rfind :: "char \<Rightarrow> string \<Rightarrow> nat option" where
  \<comment> \<open>\<open>s.rfind(c)\<close>, with \<open>None\<close> for -1\<close>
  "str_rfind c s =
     (if c \<in> set s then Some (length s - 1 - length (takeWhile (\<lambda>x. x \<noteq> c) (rev s))) else None)"

definition sanity_defaults :: "dict \<Rightarrow> dict" where
  \<comment> \<open>the five \<open>parsed.setdefault\<close> calls\<close>
  "sanity_defaults parsed =
     setdefault (setdefault (setdefault (setdefault (setdefault parsed
       ''summary'' (JStr ''No summary available.''))
       ''action_points'' (JArr []))
       ''tasks'' (JArr []))
       ''deadlines'' (JArr []))
       ''speakers'' (JArr [])"

definition parse_response :: "env \<Rightarrow> string \<Rightarrow> exc + dict" where
  \<comment> \<open>the body of the \<open>try\<close> after the call: from the text of the response to the dict\<close>
  "parse_response e content =
     (case (str_find CHR ''{'' content, str_rfind CHR ''}'' content) of
        (Some start, Some end) \<Rightarrow>
          (case json_loads e (take (end + 1 - start) (drop start content)) of
             Inl x \<Rightarrow> Inl x
           | Inr (JObj parsed) \<Rightarrow> Inr (sanity_defaults parsed)
           | Inr v \<Rightarrow> Inl (no_attribute (type_name v) ''setdefault''))
      | _ \<Rightarrow> Inl (ValueError ''Gemini did not return a JSON object.''))"

definition gemini_extract_structured :: "env \<Rightarrow> string \<Rightarrow> world \<Rightarrow> (exc + dict) \<times> world" where
  "gemini_extract_structured e text w =
     (if \<not> gemini_model e
      then (Inl (RuntimeError ''Gemini model not initialized (API key missing or invalid).''), w)
      else case call_model e (ExtractCall text) w of
        (r, w') \<Rightarrow>
          (case (case r of Inl x \<Rightarrow> Inl x | Inr t \<Rightarrow> parse_response e (text_or_empty t)) of
             Inl x \<Rightarrow> (Inl (RuntimeError (''Gemini call failed: '' @ exc_str x)), w')
           | Inr parsed \<Rightarrow> (Inr parsed, w')))"

section \<open>Follow-up e-mail, recap and translation\<close>

definition gemini_generate_followup_email :: "env \<Rightarrow> json \<Rightarrow> json \<Rightarrow> world \<Rightarrow> string \<times> world" where
  "gemini_generate_followup_email e summary_text task_list w =
     (if \<not> gemini_model e then (''Gemini not available for email generation.'', w)
      else case call_model e (EmailCall summary_text task_list) w of
        (Inl x, w') \<Rightarrow> (''Email generation failed: '' @ exc_str x, w')
      | (Inr t, w') \<Rightarrow> (strip (text_or_empty t), w'))"

definition gemini_generate_whatsapp :: "env \<Rightarrow> json \<Rightarrow> world \<Rightarrow> string \<times> world" where
  "gemini_generate_whatsapp e summary_text w =
     (if \<not> gemini_model e then (''Gemini not available for WhatsApp summary.'', w)
      else case call_model e (WhatsappCall summary_text) w of
        (Inl x, w') \<Rightarrow> (''WhatsApp summary failed: '' @ exc_str x, w')
      | (Inr t, w') \<Rightarrow> (strip (text_or_empty t), w'))"

definition gemini_translate_summary :: "env \<Rightarrow> json \<Rightarrow> string \<Rightarrow> world \<Rightarrow> json \<times> world" where
  "gemini_translate_summary e summary_text target_lang w =
     (if \<not> gemini_model e then (summary_text, w)
      else if target_lang = [] then (summary_text, w)
      else case call_model e (TranslateCall summary_text target_lang) w of
        (Inl x, w') \<Rightarrow> (summary_text, w')
      | (Inr t, w') \<Rightarrow>
          (if strip (text_or_empty t) \<noteq> [] then JStr (strip (text_or_empty t)) else summary_text, w'))"

section \<open>The report\<close>

text \<open>
  The three symbols of the template that lie beyond Latin-1 (the arrow U+2192, the
  heading mark U+2FE4 and the dash U+2014) are written as their UTF-8 bytes.
\<close>

definition ARROW :: string where
  "ARROW = [CHR 0xE2, CHR 0x86, CHR 0x92]"

definition MARK4 :: string where
  "MARK4 = [CHR 0xE2, CHR 0xBF, CHR 0xA4]"

definition DASH :: string where
  "DASH = [CHR 0xE2, CHR 0x80, CHR 0x94]"

definition bullet_lines :: "env \<Rightarrow> json list \<Rightarrow> string" where
  \<comment> \<open>one line \<open>"  - {a}\n"\<close> for each item\<close>
  "bullet_lines e xs = concat (map (\<lambda>a. ''  - '' @ py_str e a @ [NL]) xs)"

definition task_line :: "env \<Rightarrow> json \<Rightarrow> exc + string" where
  "task_line e t =
     (case t of
        JObj d \<Rightarrow>
          Inr (''  - **'' @
               py_str e (py_or e (py_or e (dict_get d ''assignee'') (dict_get d ''speaker'')) (JStr ''Unknown'')) @
               ''** '' @ ARROW @ '' '' @ py_str e (py_or e (dict_get d ''task'') (JStr [])) @
               '' _(Deadline: '' @ py_str e (py_or e (dict_get d ''deadline'') (JStr ''No deadline'')) @
               '')_'' @ [NL])
      | v \<Rightarrow> Inl (no_attribute (type_name v) ''get''))"

fun task_lines :: "env \<Rightarrow> json list \<Rightarrow> exc + string" where
  \<comment> \<open>\<open>for t in tasks\<close>\<close>
  "task_lines e [] = Inr []"
| "task_lines e (t # ts) =
     (case task_line e t of
        Inl x \<Rightarrow> Inl x
      | Inr l \<Rightarrow> (case task_lines e ts of Inl x \<Rightarrow> Inl x | Inr ls \<Rightarrow> Inr (l @ ls)))"

definition email_section :: "string \<Rightarrow> string" where
  "email_section followup_email =
     ''- **Follow-up emails**'' @ [NL] @
     (if followup_email \<noteq> [] \<and> \<not> startswith (lower followup_email) ''email generation failed''
      then ''  - Draft ready below:'' @ [NL, NL] @
           ''```text'' @ [NL] @ strip followup_email @ [NL] @ ''```'' @ [NL]
      else ''  - Could not generate email.'' @ [NL]) @
     [NL]"

definition whatsapp_section :: "string \<Rightarrow> string" where
  "whatsapp_section whatsapp_msg =
     MARK4 @ '' **Sends it to**'' @ [NL] @
     ''- **WhatsApp** '' @ DASH @ '' copy & paste this recap:'' @ [NL, NL] @
     (if whatsapp_msg \<noteq> [] \<and> \<not> startswith (lower whatsapp_msg) ''whatsapp summary failed''
      then ''```text'' @ [NL] @ strip whatsapp_msg @ [NL] @ ''```'' @ [NL]
      else ''_No WhatsApp summary generated._'' @ [NL]) @
     [NL]"

definition format_markdown_block :: "env \<Rightarrow> dict \<Rightarrow> string \<Rightarrow> string \<Rightarrow> exc + string" where
  "format_markdown_block e data followup_email whatsapp_msg =
     (let summary_v = dict_get_default data ''summary'' (JStr ''No summary available.'');
          action_points_v = py_or e (dict_get data ''action_points'') (JArr []);
          tasks_v = py_or e (dict_get data ''tasks'') (JArr []);
          deadlines_v = py_or e (dict_get data ''deadlines'') (JArr []);
          out1 = ''- **Summary**'' @ [NL] @ ''  - '' @ py_str e summary_v @ [NL, NL] @
                 ''- **Action points**'' @ [NL]
      in case (if truthy e action_points_v then py_iter action_points_v else Inr []) of
           Inl x \<Rightarrow> Inl x
         | Inr aps \<Rightarrow>
      let out2 = out1 @ (if truthy e action_points_v then bullet_lines e aps
                         else ''  - None detected.'' @ [NL]) @ [NL] @
                 ''- **Tasks assigned to specific people**'' @ [NL]
      in case (if truthy e tasks_v
               then (case py_iter tasks_v of Inl x \<Rightarrow> Inl x | Inr ts \<Rightarrow> task_lines e ts)
               else Inr (''  - No explicit tasks found.'' @ [NL])) of
           Inl x \<Rightarrow> Inl x
         | Inr tls \<Rightarrow>
      let out3 = out2 @ tls @ [NL] @ ''- **Deadlines**'' @ [NL]
      in case (if truthy e deadlines_v then py_iter deadlines_v else Inr []) of
           Inl x \<Rightarrow> Inl x
         | Inr ds \<Rightarrow>
      Inr (out3 @ (if truthy e deadlines_v then bullet_lines e ds
                   else ''  - None mentioned.'' @ [NL]) @ [NL] @
           email_section followup_email @
           whatsapp_section whatsapp_msg @
           ''- **Email** '' @ DASH @
           '' use the follow-up email draft above to send to participants.'' @ [NL]))"

section \<open>The endpoint\<close>

definition MAX_UPLOAD_BYTES :: nat where
  \<comment> \<open>Upload limit (2GB)\<close>
  "MAX_UPLOAD_BYTES = 2 * 1024 * 1024 * 1024"

record upload =
  filename :: "string option"
  content :: "byte list"
  io_fault_after :: "nat option"
      \<comment> \<open>\<open>Some k\<close>: after k chunks have been copied, the next read or write raises\<close>

datatype failure =
    HTTPException nat string
  | Unhandled exc

record response =
  resp_transcript :: string
  resp_diarization :: "segment list"
  resp_summary :: json
  resp_action_points :: json
  resp_tasks :: json
  resp_deadlines :: json
  resp_speakers :: json
  resp_structured_summary :: string
  resp_followup_email :: string
  resp_whatsapp :: string
  resp_translated_summary :: json
  resp_target_lang :: "string option"
  resp_note :: string

definition opt_str :: "string option \<Rightarrow> json" where
  "opt_str x = (case x of None \<Rightarrow> JNull | Some s \<Rightarrow> JStr s)"

definition task_to_dict :: "Task \<Rightarrow> json" where
  "task_to_dict t =
     JObj [(''speaker'', opt_str (speaker t)), (''assignee'', opt_str (assignee t)),
           (''task'', JStr (task t)), (''deadline'', opt_str (deadline t)),
           (''source'', JStr (source t))]"

definition record_to_dict :: "structured_record \<Rightarrow> dict" where
  \<comment> \<open>the dict that \<open>local_extract\<close> returns\<close>
  "record_to_dict r =
     [(''summary'', JStr (summary r)),
      (''action_points'', JArr (map JStr (action_points r))),
      (''tasks'', JArr (map task_to_dict (tasks r))),
      (''deadlines'', JArr (map JStr (deadlines r))),
      (''speakers'', JArr (map JStr (speakers r)))]"

definition tmp_path_of :: "env \<Rightarrow> upload \<Rightarrow> string" where
  \<comment> \<open>\<open>Path(tempfile.gettempdir()) / f"up_{audio.filename}"\<close>\<close>
  "tmp_path_of e u =
     gettempdir e @ ''/up_'' @ (case filename u of None \<Rightarrow> ''None'' | Some f \<Rightarrow> f)"

function save_loop :: "nat option \<Rightarrow> byte list \<Rightarrow> byte list \<Rightarrow> exc option \<times> byte list" where
  \<comment> \<open>the \<open>while True\<close> loop: the fault counter, the bytes not yet read, the bytes written;
      returns the exception, if one was raised, and the bytes in the file\<close>
  "save_loop fault pending written =
     (if fault = Some 0 then (Some (LibraryError ''I/O error''), written)
      else if take (1024 * 1024) pending = [] then (None, written)
      else save_loop (map_option (\<lambda>k. k - 1) fault) (drop (1024 * 1024) pending)
             (written @ take (1024 * 1024) pending))"
  by pat_completeness auto
termination
  by (relation "measure (\<lambda>(fault, pending, written). length pending)") auto

declare save_loop.simps [simp del]

definition save_upload :: "env \<Rightarrow> upload \<Rightarrow> world \<Rightarrow> (failure + string) \<times> world" where
  \<comment> \<open>from \<open>tmp_path = ...\<close> to the check that the file exists\<close>
  "save_upload e u w =
     (let tmp_path = tmp_path_of e u in
      case save_loop (io_fault_after u) (content u) [] of
        (Some x, written) \<Rightarrow> (Inl (Unhandled x), w\<lparr>files := (files w)(tmp_path \<mapsto> written)\<rparr>)
      | (None, written) \<Rightarrow>
          let w' = w\<lparr>files := (files w)(tmp_path \<mapsto> written)\<rparr> in
          if files w' tmp_path = None
          then (Inl (HTTPException 400 ''Failed to save uploaded file.''), w')
          else (Inr tmp_path, w'))"

definition convert_to_wav :: "env \<Rightarrow> string \<Rightarrow> world \<Rightarrow> (exc + string) \<times> world" where
  "convert_to_wav e path w =
     (case files w path of
        None \<Rightarrow> (Inl (LibraryError ''No such file''), w)
      | Some bytes \<Rightarrow>
          (case from_file e bytes of
             Inl x \<Rightarrow> (Inl x, w)
           | Inr a \<Rightarrow>
               let out = with_suffix_wav e path in
               (case export_wav e (to_mono_16k e a) of
                  Inl (x, left) \<Rightarrow>
                    (Inl x, case left of None \<Rightarrow> w | Some b \<Rightarrow> w\<lparr>files := (files w)(out \<mapsto> b)\<rparr>)
                | Inr wav \<Rightarrow> (Inr out, w\<lparr>files := (files w)(out \<mapsto> wav)\<rparr>))))"

definition transcribe_audio :: "env \<Rightarrow> string \<Rightarrow> world \<Rightarrow> exc + string \<times> segment list" where
  "transcribe_audio e wav_path w =
     (case files w wav_path of
        None \<Rightarrow> Inl (LibraryError ''No such file'')
      | Some bytes \<Rightarrow>
          (case whisper_transcribe e bytes of
             Inl x \<Rightarrow> Inl x
           | Inr segments \<Rightarrow>
               let diarization =
                     map (\<lambda>seg. seg\<lparr>seg_text := strip (seg_text seg)\<rparr>)
                       (filter (\<lambda>seg. strip (seg_text seg) \<noteq> []) segments)
               in Inr (strip (join '' '' (map seg_text diarization)), diarization)))"

definition extract_with_fallback :: "env \<Rightarrow> string \<Rightarrow> world \<Rightarrow> (exc + string \<times> dict) \<times> world" where
  \<comment> \<open>the inner \<open>try\<close>: the note and the extracted dict\<close>
  "extract_with_fallback e transcript w =
     (case gemini_extract_structured e transcript w of
        (Inr extracted, w') \<Rightarrow> (Inr ([], extracted), w')
      | (Inl x, w') \<Rightarrow>
          (case local_extract transcript of
             Inl y \<Rightarrow> (Inl y, w')
           | Inr r \<Rightarrow>
               (Inr (''Note: Gemini failed, using local extraction instead. ('' @ exc_str x @ '')'',
                     record_to_dict r), w')))"

definition wants_translation :: "string option \<Rightarrow> bool" where
  \<comment> \<open>\<open>target_lang and target_lang.lower() not in ["none", "original", "auto"]\<close>\<close>
  "wants_translation target_lang =
     (case target_lang of
        None \<Rightarrow> False
      | Some l \<Rightarrow> l \<noteq> [] \<and> lower l \<notin> set [''none'', ''original'', ''auto''])"

definition respond ::
  "env \<Rightarrow> string \<Rightarrow> segment list \<Rightarrow> string option \<Rightarrow> world \<Rightarrow> (failure + response) \<times> world" where
  \<comment> \<open>from \<open>note = ""\<close> to the \<open>return\<close>\<close>
  "respond e transcript diarization target_lang w =
     (case extract_with_fallback e transcript w of
        (Inl x, w1) \<Rightarrow> (Inl (Unhandled x), w1)
      | (Inr (note, extracted), w1) \<Rightarrow>
          let summary_text = dict_get_default extracted ''summary'' (JStr []);
              task_list = dict_get_default extracted ''tasks'' (JArr [])
          in case gemini_generate_followup_email e summary_text task_list w1 of
            (followup_email, w2) \<Rightarrow>
          case gemini_generate_whatsapp e summary_text w2 of
            (whatsapp_msg, w3) \<Rightarrow>
          case (if wants_translation target_lang
                then gemini_translate_summary e summary_text (the target_lang) w3
                else (JNull, w3)) of
            (translated_summary, w4) \<Rightarrow>
          (case format_markdown_block e extracted followup_email whatsapp_msg of
             Inl x \<Rightarrow> (Inl (Unhandled x), w4)
           | Inr structured_markdown \<Rightarrow>
               (Inr \<lparr>resp_transcript = transcript,
                     resp_diarization = diarization,
                     resp_summary = summary_text,
                     resp_action_points = dict_get_default extracted ''action_points'' (JArr []),
                     resp_tasks = task_list,
                     resp_deadlines = dict_get_default extracted ''deadlines'' (JArr []),
                     resp_speakers = dict_get_default extracted ''speakers'' (JArr []),
                     resp_structured_summary = structured_markdown,
                     resp_followup_email = followup_email,
                     resp_whatsapp = whatsapp_msg,
                     resp_translated_summary = translated_summary,
                     resp_target_lang = target_lang,
                     resp_note = note\<rparr>, w4)))"

definition pipeline ::
  "env \<Rightarrow> string \<Rightarrow> string option \<Rightarrow> world \<Rightarrow> (failure + response) \<times> string option \<times> world" where
  \<comment> \<open>the body of the outer \<open>try\<close>; the second component is \<open>wav_path\<close> once it is assigned\<close>
  "pipeline e tmp_path target_lang w =
     (case convert_to_wav e tmp_path w of
        (Inl x, w1) \<Rightarrow> (Inl (Unhandled x), None, w1)
      | (Inr wav_path, w1) \<Rightarrow>
          (case transcribe_audio e wav_path w1 of
             Inl x \<Rightarrow> (Inl (Unhandled x), Some wav_path, w1)
           | Inr (transcript, diarization) \<Rightarrow>
               if strip transcript = []
               then (Inl (HTTPException 400 ''Transcription is empty.''), Some wav_path, w1)
               else (case respond e transcript diarization target_lang w1 of
                       (r, w2) \<Rightarrow> (r, Some wav_path, w2))))"

definition cleanup :: "env \<Rightarrow> string \<Rightarrow> string option \<Rightarrow> world \<Rightarrow> world" where
  \<comment> \<open>the \<open>finally\<close> block: an exception of \<open>unlink\<close> ends it silently\<close>
  "cleanup e tmp_path wav_path w =
     (if files w tmp_path \<noteq> None \<and> unlink_fails e tmp_path then w
      else let w1 = (if files w tmp_path \<noteq> None then w\<lparr>files := (files w)(tmp_path := None)\<rparr>
                     else w) in
        case wav_path of
          None \<Rightarrow> w1
        | Some p \<Rightarrow>
            if files w1 p \<noteq> None \<and> \<not> unlink_fails e p then w1\<lparr>files := (files w1)(p := None)\<rparr>
            else w1)"

definition summarize_meeting ::
  "env \<Rightarrow> upload \<Rightarrow> string option \<Rightarrow> world \<Rightarrow> (failure + response) \<times> world" where
  "summarize_meeting e audio_file target_lang w =
     (case save_upload e audio_file w of
        (Inl x, w1) \<Rightarrow> (Inl x, w1)
      | (Inr tmp_path, w1) \<Rightarrow>
          (case pipeline e tmp_path target_lang w1 of
             (r, wav_path, w2) \<Rightarrow> (r, cleanup e tmp_path wav_path w2)))"

section \<open>Auxiliary notions for the proofs\<close>

fun nogrp :: "regex \<Rightarrow> bool" where
  \<comment> \<open>the pattern has no capturing group\<close>
  "nogrp (Grp i r) = False"
| "nogrp (Cat r1 r2) = (nogrp r1 \<and> nogrp r2)"
| "nogrp (Alt r1 r2) = (nogrp r1 \<and> nogrp r2)"
| "nogrp r = True"

definition emitted_task :: "regex \<Rightarrow> string \<Rightarrow> Task option" where
  \<comment> \<open>the Task that one task pattern contributes for a sentence, if it matches\<close>
  "emitted_task pat s =
     (case re_search False pat s of
        None \<Rightarrow> None
      | Some m \<Rightarrow>
          (case group m 2 of
             None \<Rightarrow> None
           | Some task_text \<Rightarrow>
               Some \<lparr>speaker = group m 1, assignee = group m 1, task = strip task_text,
                     deadline = first_deadline DEADLINE_PATTERNS s, source = s\<rparr>))"

definition opt_list :: "'a option \<Rightarrow> 'a list" where
  "opt_list x = (case x of None \<Rightarrow> [] | Some v \<Rightarrow> [v])"

definition clause :: regex where
  \<comment> \<open>the common end of the three task patterns, nested as \<open>cats\<close> builds it\<close>
  "clause = Cat (Rep True 1 Space) (Cat (Grp 2 (Rep False 1 Dot)) (Alt (One (Lit CHR ''.'')) Eos))"

definition clean_text :: "string \<Rightarrow> bool" where
  \<comment> \<open>a text without a line break that does not end in whitespace\<close>
  "clean_text s = (NL \<notin> set s \<and> (s = [] \<or> \<not> is_space (last s)))"

definition clause_ok :: "mstate \<Rightarrow> bool" where
  \<comment> \<open>the newest capture is group 2, and it starts with a character that is not whitespace\<close>
  "clause_ok x = (case x of (p, r, g) \<Rightarrow>
     (case g of [] \<Rightarrow> False | (i, t) # g0 \<Rightarrow> i = 2 \<and> t \<noteq> [] \<and> \<not> is_space (hd t)))"

definition head_ok :: "bool \<Rightarrow> regex \<Rightarrow> bool" where
  \<comment> \<open>on a clean text, the first match of the pattern (if any) is \<open>clause_ok\<close>\<close>
  "head_ok ic r = (\<forall>p rest g. clean_text rest \<longrightarrow>
      (case rmatch ic r (p, rest, g) of [] \<Rightarrow> True | x # xs \<Rightarrow> clause_ok x))"

definition DEFAULTS :: dict where
  \<comment> \<open>the five keys of a structured record with their empty or sentinel forms\<close>
  "DEFAULTS = [(''summary'', JStr ''No summary available.''), (''action_points'', JArr []),
               (''tasks'', JArr []), (''deadlines'', JArr []), (''speakers'', JArr [])]"

definition sample_env :: env where
  \<comment> \<open>an environment for the worked examples: the model answers every prompt but the
      recap, decoding and transcription succeed\<close>
  "sample_env =
     \<lparr>gemini_model = True,
      generate_content = (\<lambda>n c. case c of
          ExtractCall t \<Rightarrow> Inr (Some ''Here: {} done'')
        | EmailCall s ts \<Rightarrow> Inr (Some '' Hello team '')
        | WhatsappCall s \<Rightarrow> Inl (LibraryError ''quota exceeded'')
        | TranslateCall s l \<Rightarrow> Inr (Some ''Hola'')),
      json_loads = (\<lambda>s. if s = ''{}'' then Inr (JObj []) else Inl (ValueError ''Expecting value'')),
      py_repr = (\<lambda>v. ''[]''),
      gettempdir = ''/tmp'',
      with_suffix_wav = (\<lambda>p. p @ ''.wav''),
      from_file = (\<lambda>b. Inr (Audio 44100 2 [])),
      to_mono_16k = (\<lambda>a. Audio 16000 1 []),
      export_wav = (\<lambda>a. Inr ''RIFF''),
      whisper_transcribe = (\<lambda>b. Inr [\<lparr>seg_start = Finite 0, seg_end = Finite 1,
                                         seg_text = '' Al will go. ''\<rparr>]),
      unlink_fails = (\<lambda>p. False)\<rparr>"

definition empty_world :: world where
  "empty_world = \<lparr>files = Map.empty, calls = []\<rparr>"

definition sample_upload :: upload where
  "sample_upload = \<lparr>filename = Some ''a'', content = ''xyz'', io_fault_after = None\<rparr>"

fun is_translate :: "gen_call \<Rightarrow> bool" where
  \<comment> \<open>the call is a translation call\<close>
  "is_translate (TranslateCall s l) = True"
| "is_translate c = False"

definition quiet :: "world \<Rightarrow> world \<Rightarrow> bool" where
  \<comment> \<open>from the first world to the second, calls were only added, and no translation call\<close>
  "quiet w w' = (\<exists>new. calls w' = calls w @ new \<and> (\<forall>c \<in> set new. \<not> is_translate c))"

definition stuck_env :: env where
  \<comment> \<open>the sample environment, but no file can be deleted\<close>
  "stuck_env = sample_env\<lparr>unlink_fails := (\<lambda>p. True)\<rparr>"

definition faulty_upload :: upload where
  \<comment> \<open>the sample upload, but the first read or write of the copy raises\<close>
  "faulty_upload = sample_upload\<lparr>io_fault_after := Some 0\<rparr>"


definition failing_env :: env where
  \<comment> \<open>the sample environment, but every call to the model raises\<close>
  "failing_env = sample_env\<lparr>generate_content := (\<lambda>n c. Inl (LibraryError ''quota exceeded''))\<rparr>"
section \<open>De-duplication\<close>

lemma remdups_snoc: "remdups (ys @ [x]) = remdups (filter (\<lambda>y. y \<noteq> x) ys) @ [x]"
  by (induction ys) auto

lemma dict_fromkeys_remdups:
  "dict_fromkeys keys xs = keys @ rev (remdups (rev (filter (\<lambda>x. x \<notin> set keys) xs)))"
proof (induction xs arbitrary: keys)
  case Nil
  then show ?case by simp
next
  case (Cons x xs)
  show ?case
  proof (cases "x \<in> set keys")
    case True
    then show ?thesis using Cons.IH [of keys] by simp
  next
    case False
    have eq: "filter (\<lambda>y. y \<notin> set (keys @ [x])) xs = filter (\<lambda>y. y \<noteq> x) (filter (\<lambda>y. y \<notin> set keys) xs)"
      by (induction xs) auto
    have "rev (remdups (rev (filter (\<lambda>y. y \<notin> set keys) xs) @ [x]))
        = x # rev (remdups (rev (filter (\<lambda>y. y \<noteq> x) (filter (\<lambda>y. y \<notin> set keys) xs))))"
      by (simp only: remdups_snoc rev_filter rev_append rev.simps append.simps)
    moreover have "filter (\<lambda>y. y \<notin> set keys \<and> y \<noteq> x) xs = filter (\<lambda>y. y \<noteq> x \<and> y \<notin> set keys) xs"
      by (rule filter_cong) auto
    ultimately show ?thesis using False Cons.IH [of "keys @ [x]"] by (simp add: eq)
  qed
qed

lemma firsts_snoc:
  "map ((!) (xs @ [x])) (filter (\<lambda>i. (xs @ [x]) ! i \<notin> set (take i (xs @ [x]))) [0..<length (xs @ [x])])
   = map ((!) xs) (filter (\<lambda>i. xs ! i \<notin> set (take i xs)) [0..<length xs]) @ (if x \<in> set xs then [] else [x])"
proof -
  have a: "filter (\<lambda>i. (xs @ [x]) ! i \<notin> set (take i (xs @ [x]))) [0..<length xs]
         = filter (\<lambda>i. xs ! i \<notin> set (take i xs)) [0..<length xs]"
    by (rule filter_cong) (auto simp: nth_append)
  have b: "map ((!) (xs @ [x])) (filter (\<lambda>i. xs ! i \<notin> set (take i xs)) [0..<length xs])
         = map ((!) xs) (filter (\<lambda>i. xs ! i \<notin> set (take i xs)) [0..<length xs])"
    by (rule map_cong) (auto simp: nth_append)
  have c: "[0..<length (xs @ [x])] = [0..<length xs] @ [length xs]" by simp
  show ?thesis unfolding c filter_append map_append a b by simp
qed

lemma rev_remdups_firsts:
  "rev (remdups (rev xs)) = map ((!) xs) (filter (\<lambda>i. xs ! i \<notin> set (take i xs)) [0..<length xs])"
proof (induction xs rule: rev_induct)
  case Nil
  then show ?case by simp
next
  case (snoc x xs)
  have "rev (remdups (rev (xs @ [x]))) = rev (remdups (rev xs)) @ (if x \<in> set xs then [] else [x])"
    by simp
  then show ?case using snoc.IH firsts_snoc [of xs x] by simp
qed

lemma dict_fromkeys_firsts:
  "dict_fromkeys [] xs = map ((!) xs) (filter (\<lambda>i. xs ! i \<notin> set (take i xs)) [0..<length xs])"
  by (simp add: dict_fromkeys_remdups rev_remdups_firsts)

lemma dict_fromkeys_distinct: "distinct (dict_fromkeys [] xs)"
  by (simp add: dict_fromkeys_remdups)

lemma dict_fromkeys_set: "set (dict_fromkeys [] xs) = set xs"
  by (simp add: dict_fromkeys_remdups)

lemma dict_fromkeys_first_seen: "dict_fromkeys [] xs = first_seen xs"
  by (simp add: first_seen_def dict_fromkeys_firsts)

section \<open>Facts about the matcher\<close>

lemma in_rmatch_Emp [simp]: "x \<in> set (rmatch ic Emp st) \<longleftrightarrow> x = st"
  by simp

lemma in_rmatch_One [simp]:
  "(p', r', g') \<in> set (rmatch ic (One c) (p, rest, g)) \<longleftrightarrow>
     (\<exists>x. rest = x # r' \<and> cmem ic c x \<and> p' = Some x \<and> g' = g)"
  by (cases rest) auto

lemma in_rmatch_Rep0:
  "x \<in> set (rmatch ic (Rep gr n c) (p, rest, g)) \<longleftrightarrow>
     (\<exists>k. n \<le> k \<and> k \<le> length (takeWhile (cmem ic c) rest) \<and> x = advance (p, rest, g) k)"
  by (auto simp: Let_def)

lemma in_rmatch_Rep [simp]:
  "(p', r', g') \<in> set (rmatch ic (Rep gr n c) (p, rest, g)) \<longleftrightarrow>
     (\<exists>k. n \<le> k \<and> k \<le> length (takeWhile (cmem ic c) rest) \<and>
          p' = (if k = 0 then p else Some (rest ! (k - 1))) \<and> r' = drop k rest \<and> g' = g)"
  unfolding in_rmatch_Rep0 advance_def by (simp only: prod.case prod.inject)

lemma in_rmatch_Cat [simp]:
  "x \<in> set (rmatch ic (Cat r1 r2) st) \<longleftrightarrow> (\<exists>y \<in> set (rmatch ic r1 st). x \<in> set (rmatch ic r2 y))"
  by auto

lemma in_rmatch_Alt [simp]:
  "x \<in> set (rmatch ic (Alt r1 r2) st) \<longleftrightarrow> x \<in> set (rmatch ic r1 st) \<or> x \<in> set (rmatch ic r2 st)"
  by auto

lemma in_rmatch_Grp [simp]:
  "(p', r', g') \<in> set (rmatch ic (Grp i r) (p, rest, g)) \<longleftrightarrow>
     (\<exists>g''. (p', r', g'') \<in> set (rmatch ic r (p, rest, g)) \<and>
            g' = (i, take (length rest - length r') rest) # g'')"
  by force

lemma in_rmatch_Eos [simp]:
  "x \<in> set (rmatch ic Eos (p, rest, g)) \<longleftrightarrow> (rest = [] \<or> rest = [NL]) \<and> x = (p, rest, g)"
  by auto

lemma in_rmatch_Lookbehind [simp]:
  "x \<in> set (rmatch ic (Lookbehind c) (p, rest, g)) \<longleftrightarrow>
     (\<exists>a. p = Some a \<and> cmem ic c a) \<and> x = (p, rest, g)"
  by (auto split: option.splits)

declare rmatch.simps [simp del]



lemma rmatch_nogrp:
  "nogrp r \<Longrightarrow> (p', r', g') \<in> set (rmatch ic r (p, rest, g)) \<Longrightarrow> g' = g"
proof (induction r arbitrary: p rest g p' r' g')
  case (Cat r1 r2)
  from Cat.prems obtain y where y: "y \<in> set (rmatch ic r1 (p, rest, g))"
    and x: "(p', r', g') \<in> set (rmatch ic r2 y)" by auto
  obtain p1 rest1 g1 where y_eq: "y = (p1, rest1, g1)" by (cases y)
  with y Cat.IH(1) Cat.prems(1) have "g1 = g" by auto
  with x y_eq Cat.IH(2) Cat.prems(1) show ?case by auto
qed auto

lemma rmatch_suffix:
  "(p', r', g') \<in> set (rmatch ic r (p, rest, g)) \<Longrightarrow> \<exists>w. rest = w @ r'"
proof (induction r arbitrary: p rest g p' r' g')
  case (Rep gr n c)
  then obtain k where "r' = drop k rest" by auto
  then have "rest = take k rest @ r'" by simp
  then show ?case by blast
next
  case (Cat r1 r2)
  from Cat.prems obtain y where y: "y \<in> set (rmatch ic r1 (p, rest, g))"
    and x: "(p', r', g') \<in> set (rmatch ic r2 y)" by auto
  obtain p1 rest1 g1 where y_eq: "y = (p1, rest1, g1)" by (cases y)
  from y y_eq Cat.IH(1) obtain w1 where "rest = w1 @ rest1" by blast
  moreover from x y_eq Cat.IH(2) obtain w2 where "rest1 = w2 @ r'" by blast
  ultimately have "rest = (w1 @ w2) @ r'" by simp
  then show ?case by blast
qed auto

lemma rmatch_strip_prefix:
  assumes "nogrp f" and "x \<in> set (rmatch ic (Cat f r) (p, rest, g))"
  shows "\<exists>p1 rest1. x \<in> set (rmatch ic r (p1, rest1, g))"
proof -
  from assms(2) obtain y where y: "y \<in> set (rmatch ic f (p, rest, g))"
    and x: "x \<in> set (rmatch ic r y)" by auto
  obtain p1 rest1 g1 where y_eq: "y = (p1, rest1, g1)" by (cases y)
  with y assms(1) have "g1 = g" by (auto dest: rmatch_nogrp)
  with x y_eq show ?thesis by blast
qed

lemma nogrp_lit [simp]: "nogrp (lit w)"
  by (induction w rule: lit.induct) auto

lemma rmatch_name_group:
  assumes "x \<in> set (rmatch ic name_group (p, rest, g))"
  shows "\<exists>p' r' n. x = (p', r', (1, n) # g)"
proof -
  obtain p' r' g' where x_eq: "x = (p', r', g')" by (cases x)
  let ?body = "Cat (One (Ranges [(CHR ''A'', CHR ''Z'')])) (Rep True 1 (Ranges [(CHR ''a'', CHR ''z'')]))"
  from assms [unfolded name_group_def x_eq in_rmatch_Grp] obtain g'' where
    g'': "(p', r', g'') \<in> set (rmatch ic ?body (p, rest, g))"
    "g' = (1, take (length rest - length r') rest) # g''" by blast
  have "nogrp ?body" by simp
  from rmatch_nogrp [OF this g''(1)] have "g'' = g" .
  with x_eq g''(2) show ?thesis by blast
qed

lemma rmatch_clause:
  assumes "x \<in> set (rmatch ic (Cat (Rep True 1 Space) (Cat (Grp 2 (Rep False 1 Dot)) (Alt (One (Lit CHR ''.'')) Eos))) (p, rest, g))"
  shows "\<exists>p' r' t. x = (p', r', (2, t) # g) \<and> t \<noteq> []"
proof -
  have n: "nogrp (Rep True 1 Space)" by simp
  from rmatch_strip_prefix [OF n assms] obtain p1 rest1 where
    x: "x \<in> set (rmatch ic (Cat (Grp 2 (Rep False 1 Dot)) (Alt (One (Lit CHR ''.'')) Eos)) (p1, rest1, g))"
    by blast
  then obtain y where y: "y \<in> set (rmatch ic (Grp 2 (Rep False 1 Dot)) (p1, rest1, g))"
    and x2: "x \<in> set (rmatch ic (Alt (One (Lit CHR ''.'')) Eos) y)"
    unfolding in_rmatch_Cat by blast
  obtain p2 rest2 g2 where y_eq: "y = (p2, rest2, g2)" by (cases y)
  from y [unfolded y_eq in_rmatch_Grp in_rmatch_Rep] obtain k where k: "1 \<le> k"
    "k \<le> length (takeWhile (cmem ic Dot) rest1)"
    "rest2 = drop k rest1" "g2 = (2, take (length rest1 - length rest2) rest1) # g" by blast
  have "k \<le> length rest1" using k(2) length_takeWhile_le [of "cmem ic Dot" rest1] by simp
  with k(1,3) have t: "take (length rest1 - length rest2) rest1 \<noteq> []" by auto
  obtain p' r' g' where x_eq: "x = (p', r', g')" by (cases x)
  have "nogrp (Alt (One (Lit CHR ''.'')) Eos)" by simp
  from rmatch_nogrp [OF this x2 [unfolded x_eq y_eq]] have "g' = g2" .
  with x_eq k(4) t show ?thesis by blast
qed

lemma rmatch_strip_prefixes:
  "\<forall>f \<in> set fs. nogrp f \<Longrightarrow> x \<in> set (rmatch ic (foldr Cat fs r) (p, rest, g)) \<Longrightarrow>
     \<exists>p1 rest1. x \<in> set (rmatch ic r (p1, rest1, g))"
proof (induction fs arbitrary: p rest)
  case Nil
  then show ?case by auto
next
  case (Cons f fs)
  from Cons.prems have "nogrp f" and x: "x \<in> set (rmatch ic (Cat f (foldr Cat fs r)) (p, rest, g))"
    by simp_all
  from rmatch_strip_prefix [OF this] obtain p1 rest1 where
    "x \<in> set (rmatch ic (foldr Cat fs r) (p1, rest1, g))" by blast
  with Cons.IH Cons.prems(1) show ?case by simp
qed

lemma rmatch_task_shape:
  assumes fs: "\<forall>f \<in> set fs. nogrp f"
    and x: "x \<in> set (rmatch ic (Cat name_group (foldr Cat fs clause)) (p, rest, g))"
  shows "\<exists>p' r' t n. x = (p', r', [(2, t), (1, n)] @ g) \<and> t \<noteq> []"
proof -
  from x obtain y where y: "y \<in> set (rmatch ic name_group (p, rest, g))"
    and x2: "x \<in> set (rmatch ic (foldr Cat fs clause) y)"
    unfolding in_rmatch_Cat by blast
  from rmatch_name_group [OF y] obtain p1 r1 n where y_eq: "y = (p1, r1, (1, n) # g)" by blast
  from rmatch_strip_prefixes [OF fs x2 [unfolded y_eq]] obtain p2 r2 where
    "x \<in> set (rmatch ic clause (p2, r2, (1, n) # g))" by blast
  from rmatch_clause [OF this [unfolded clause_def]] show ?thesis by auto
qed

lemma task_pattern_shapes:
  "task_pattern_1 = Cat name_group (foldr Cat
      [Rep True 1 Space,
       alts (lit ''will'') [lit ''should'', lit ''needs to'', lit ''is going to'', lit ''must'', lit ''has to'']]
      clause)"
  "task_pattern_2 = Cat name_group (foldr Cat
      [Rep True 0 Space, One (Lit CHR '':''), Rep True 0 Space,
       alts (lit ''will'') [lit ''should'', lit ''needs to'', lit ''must'']]
      clause)"
  "task_pattern_3 = Cat name_group (foldr Cat
      [Rep True 1 Space, alts (lit ''assigned'') [lit ''tasked''], Rep True 1 Space, lit ''to'']
      clause)"
  by (simp_all add: task_pattern_1_def task_pattern_2_def task_pattern_3_def clause_tail_def clause_def
        del: lit.simps alts.simps)

lemma nogrp_alts [simp]: "nogrp r \<Longrightarrow> \<forall>x \<in> set rs. nogrp x \<Longrightarrow> nogrp (alts r rs)"
  by (induction r rs rule: alts.induct) auto

lemma rmatch_task_patterns:
  assumes "pat \<in> set TASK_PATTERNS" and "x \<in> set (rmatch ic pat (p, rest, g))"
  shows "\<exists>p' r' t n. x = (p', r', [(2, t), (1, n)] @ g) \<and> t \<noteq> []"
proof -
  from assms(1) consider "pat = task_pattern_1" | "pat = task_pattern_2" | "pat = task_pattern_3"
    by (auto simp: TASK_PATTERNS_def)
  then show ?thesis
  proof cases
    case 1
    show ?thesis
      by (rule rmatch_task_shape [OF _ assms(2) [unfolded 1 task_pattern_shapes(1)]])
         (simp del: lit.simps alts.simps)
  next
    case 2
    show ?thesis
      by (rule rmatch_task_shape [OF _ assms(2) [unfolded 2 task_pattern_shapes(2)]])
         (simp del: lit.simps alts.simps)
  next
    case 3
    show ?thesis
      by (rule rmatch_task_shape [OF _ assms(2) [unfolded 3 task_pattern_shapes(3)]])
         (simp del: lit.simps alts.simps)
  qed
qed

lemma match_at_task_patterns:
  assumes "pat \<in> set TASK_PATTERNS" and "match_at ic pat prev s = Some m"
  shows "\<exists>t n. captured m = [(2, t), (1, n)] \<and> t \<noteq> []"
proof (cases "rmatch ic pat (prev, s, [])")
  case Nil
  with assms(2) show ?thesis by (simp add: match_at_def)
next
  case (Cons x xs)
  then have "x \<in> set (rmatch ic pat (prev, s, []))" by simp
  from rmatch_task_patterns [OF assms(1) this] obtain p' r' t n where
    "x = (p', r', [(2, t), (1, n)])" "t \<noteq> []" by auto
  with Cons assms(2) show ?thesis by (auto simp: match_at_def)
qed

lemma search_from_task_patterns:
  "pat \<in> set TASK_PATTERNS \<Longrightarrow> search_from ic pat prev s = Some m \<Longrightarrow>
     \<exists>t n. captured m = [(2, t), (1, n)] \<and> t \<noteq> []"
proof (induction s arbitrary: prev)
  case Nil
  then show ?case using match_at_task_patterns by simp
next
  case (Cons c cs)
  show ?case
  proof (cases "match_at ic pat prev (c # cs)")
    case None
    with Cons show ?thesis by simp
  next
    case (Some m')
    with Cons.prems have "m' = m" by simp
    with Some Cons.prems(1) show ?thesis using match_at_task_patterns by blast
  qed
qed

lemma re_search_task_patterns:
  assumes "pat \<in> set TASK_PATTERNS" and "re_search False pat s = Some m"
  shows "\<exists>t n. group m 2 = Some t \<and> t \<noteq> [] \<and> group m 1 = Some n"
proof -
  from search_from_task_patterns [OF assms(1) assms(2) [unfolded re_search_def]]
  obtain t n where "captured m = [(2, t), (1, n)]" "t \<noteq> []" by blast
  then show ?thesis by (simp add: group_def)
qed

section \<open>The loops of the fallback extractor\<close>

lemma task_loop_emitted:
  "set pats \<subseteq> set TASK_PATTERNS \<Longrightarrow>
   task_loop pats s st =
     Inr (st\<lparr>acc_deadlines := acc_deadlines st @
                 concat (map (\<lambda>t. opt_list (deadline t)) (List.map_filter (\<lambda>pat. emitted_task pat s) pats)),
             acc_tasks := acc_tasks st @ List.map_filter (\<lambda>pat. emitted_task pat s) pats\<rparr>)"
proof (induction pats arbitrary: st)
  case Nil
  then show ?case by (simp add: List.map_filter_simps)
next
  case (Cons pat pats)
  then have mem: "pat \<in> set TASK_PATTERNS" and sub: "set pats \<subseteq> set TASK_PATTERNS" by auto
  show ?case
  proof (cases "re_search False pat s")
    case None
    then show ?thesis using Cons.IH [OF sub]
      by (simp add: List.map_filter_simps emitted_task_def)
  next
    case (Some m)
    from re_search_task_patterns [OF mem Some] obtain t n where
      g: "group m 2 = Some t" "group m 1 = Some n" by blast
    show ?thesis using Some g Cons.IH [OF sub]
      by (simp add: List.map_filter_simps emitted_task_def opt_list_def Let_def)
  qed
qed

lemma deadline_loop_all:
  "deadline_loop dps s ds = ds @ List.map_filter (\<lambda>dp. map_option whole (re_search True dp s)) dps"
proof (induction dps arbitrary: ds)
  case Nil
  then show ?case by (simp add: List.map_filter_simps)
next
  case (Cons dp dps)
  then show ?case by (cases "re_search True dp s") (simp_all add: List.map_filter_simps)
qed

lemma length_map_filter:
  "length (List.map_filter f xs) = length (filter (\<lambda>x. f x \<noteq> None) xs)"
  by (induction xs) (auto simp: List.map_filter_simps split: option.splits)

lemma emitted_task_None:
  "pat \<in> set TASK_PATTERNS \<Longrightarrow> emitted_task pat s = None \<longleftrightarrow> re_search False pat s = None"
  by (auto simp: emitted_task_def split: option.splits dest: re_search_task_patterns)

lemma sentence_step_result:
  "sentence_step s st =
     Inr \<lparr>acc_action_points = acc_action_points st @
              (if \<exists>k \<in> set KEYWORDS. contains (lower s) k then [s] else []),
          acc_tasks = acc_tasks st @ List.map_filter (\<lambda>pat. emitted_task pat s) TASK_PATTERNS,
          acc_deadlines = acc_deadlines st @
              concat (map (\<lambda>t. opt_list (deadline t))
                        (List.map_filter (\<lambda>pat. emitted_task pat s) TASK_PATTERNS)) @
              List.map_filter (\<lambda>dp. map_option whole (re_search True dp s)) DEADLINE_PATTERNS\<rparr>"
  by (simp add: sentence_step_def Let_def task_loop_emitted deadline_loop_all)

section \<open>The first match on a text without line breaks\<close>

lemma cmem_Space [simp]: "cmem ic Space = is_space"
  by (rule ext) simp

lemma cmem_Dot [simp]: "cmem ic Dot = (\<lambda>c. c \<noteq> NL)"
  by (rule ext) simp

lemma clean_text_suffix: "clean_text (w @ s) \<Longrightarrow> clean_text s"
  by (auto simp: clean_text_def)

lemma clean_text_dropWhile:
  assumes "clean_text s" and "takeWhile is_space s \<noteq> []"
  shows "dropWhile is_space s \<noteq> [] \<and> \<not> is_space (hd (dropWhile is_space s))"
proof -
  from assms(2) have "s \<noteq> []" by auto
  with assms(1) have "\<not> is_space (last s)" by (simp add: clean_text_def)
  moreover have "last s \<in> set s" using \<open>s \<noteq> []\<close> by simp
  ultimately have "dropWhile is_space s \<noteq> []" by (auto simp: dropWhile_eq_Nil_conv)
  then show ?thesis using hd_dropWhile [of is_space s] by simp
qed

lemma rev_upt_Suc: "n \<le> m \<Longrightarrow> rev [n..<Suc m] = m # rev [n..<m]"
  by simp

lemma clause_rest_all:
  assumes u: "u \<noteq> []" "\<not> is_space (hd u)"
    and x: "x \<in> set (rmatch ic (Cat (Grp 2 (Rep False 1 Dot)) (Alt (One (Lit CHR ''.'')) Eos)) (q, u, g))"
  shows "clause_ok x"
proof -
  from x obtain y where y: "y \<in> set (rmatch ic (Grp 2 (Rep False 1 Dot)) (q, u, g))"
    and x2: "x \<in> set (rmatch ic (Alt (One (Lit CHR ''.'')) Eos) y)"
    unfolding in_rmatch_Cat by blast
  obtain p2 rest2 g2 where y_eq: "y = (p2, rest2, g2)" by (cases y)
  from y [unfolded y_eq in_rmatch_Grp in_rmatch_Rep cmem_Dot] obtain k where k: "1 \<le> k"
    "k \<le> length (takeWhile (\<lambda>c. c \<noteq> NL) u)"
    "rest2 = drop k u" "g2 = (2, take (length u - length rest2) u) # g" by blast
  have kl: "k \<le> length u" using k(2) length_takeWhile_le [of "\<lambda>c. c \<noteq> NL" u] by simp
  with k(3) have "take (length u - length rest2) u = take k u" by simp
  moreover from k(1) u(1) have "take k u \<noteq> []" "hd (take k u) = hd u" by (cases k; cases u; simp)+
  ultimately have g2: "g2 = (2, take k u) # g" "take k u \<noteq> []" "\<not> is_space (hd (take k u))"
    using k(4) u(2) by simp_all
  obtain p' r' g' where x_eq: "x = (p', r', g')" by (cases x)
  have "nogrp (Alt (One (Lit CHR ''.'')) Eos)" by simp
  from rmatch_nogrp [OF this x2 [unfolded x_eq y_eq]] have "g' = g2" .
  with x_eq g2 show ?thesis by (simp add: clause_ok_def)
qed

lemma clause_rest_nonempty:
  assumes "u \<noteq> []" "NL \<notin> set u"
  shows "rmatch ic (Cat (Grp 2 (Rep False 1 Dot)) (Alt (One (Lit CHR ''.'')) Eos)) (q, u, g) \<noteq> []"
proof -
  have tw: "takeWhile (\<lambda>c. c \<noteq> NL) u = u" using assms(2) by (auto simp: takeWhile_eq_all_conv)
  have "(Some (u ! (length u - 1)), [], (2, u) # g) \<in> set (rmatch ic (Grp 2 (Rep False 1 Dot)) (q, u, g))"
    unfolding in_rmatch_Grp in_rmatch_Rep cmem_Dot tw using assms(1)
    by (auto intro!: exI [of _ "length u"] simp: Suc_le_eq)
  moreover have "(Some (u ! (length u - 1)), [], (2, u) # g) \<in>
      set (rmatch ic (Alt (One (Lit CHR ''.'')) Eos) (Some (u ! (length u - 1)), [], (2, u) # g))"
    unfolding in_rmatch_Alt in_rmatch_Eos by simp
  ultimately have mem: "(Some (u ! (length u - 1)), [], (2, u) # g) \<in>
      set (rmatch ic (Cat (Grp 2 (Rep False 1 Dot)) (Alt (One (Lit CHR ''.'')) Eos)) (q, u, g))"
    unfolding in_rmatch_Cat by blast
  show ?thesis
  proof
    assume e: "rmatch ic (Cat (Grp 2 (Rep False 1 Dot)) (Alt (One (Lit CHR ''.'')) Eos)) (q, u, g) = []"
    from mem show False unfolding e by simp
  qed
qed

lemma head_ok_clause: "head_ok ic clause"
  unfolding head_ok_def
proof (intro allI impI)
  fix p rest g
  assume clean_text: "clean_text rest"
  let ?C2 = "Cat (Grp 2 (Rep False 1 Dot)) (Alt (One (Lit CHR ''.'')) Eos)"
  let ?m = "length (takeWhile is_space rest)"
  show "case rmatch ic clause (p, rest, g) of [] \<Rightarrow> True | x # xs \<Rightarrow> clause_ok x"
  proof (cases "?m = 0")
    case True
    then have "rmatch ic clause (p, rest, g) = []"
      by (simp add: clause_def rmatch.simps Let_def)
    then show ?thesis by simp
  next
    case False
    then have tw: "takeWhile is_space rest \<noteq> []" and m1: "Suc 0 \<le> ?m"
      by (simp_all add: Suc_le_eq)
    let ?u = "dropWhile is_space rest"
    from clean_text_dropWhile [OF clean_text tw] have u: "?u \<noteq> []" "\<not> is_space (hd ?u)" by simp_all
    have nl: "NL \<notin> set ?u" using clean_text set_dropWhileD [of NL is_space rest] by (auto simp: clean_text_def)
    have adv: "advance (p, rest, g) ?m = (Some (rest ! (?m - 1)), ?u, g)"
      using False by (simp add: advance_def dropWhile_eq_drop)
    have "rev [1..<Suc ?m] = ?m # rev [1..<?m]" using False by (simp add: Suc_le_eq)
    then have split: "rmatch ic clause (p, rest, g) =
        rmatch ic ?C2 (Some (rest ! (?m - 1)), ?u, g) @
        concat (map (rmatch ic ?C2) (map (advance (p, rest, g)) (rev [1..<?m])))"
      using adv m1 by (simp add: clause_def rmatch.simps Let_def del: upt_Suc)
    from clause_rest_nonempty [OF u(1) nl] obtain x xs where
      hd: "rmatch ic ?C2 (Some (rest ! (?m - 1)), ?u, g) = x # xs"
      by (cases "rmatch ic ?C2 (Some (rest ! (?m - 1)), ?u, g)") auto
    then have "x \<in> set (rmatch ic ?C2 (Some (rest ! (?m - 1)), ?u, g))" by simp
    from clause_rest_all [OF u this] have "clause_ok x" .
    with split hd show ?thesis by simp
  qed
qed

lemma hd_concat_mem:
  "concat xss = x # xs \<Longrightarrow> \<exists>ys \<in> set xss. \<exists>ys'. ys = x # ys'"
proof (induction xss)
  case Nil
  then show ?case by simp
next
  case (Cons a xss)
  then show ?case by (cases a) auto
qed

lemma head_ok_Cat:
  assumes "head_ok ic r2"
  shows "head_ok ic (Cat r1 r2)"
  unfolding head_ok_def
proof (intro allI impI)
  fix p rest g
  assume clean_text: "clean_text rest"
  show "case rmatch ic (Cat r1 r2) (p, rest, g) of [] \<Rightarrow> True | x # xs \<Rightarrow> clause_ok x"
  proof (cases "rmatch ic (Cat r1 r2) (p, rest, g)")
    case Nil
    then show ?thesis by simp
  next
    case (Cons x xs)
    then have "concat (map (rmatch ic r2) (rmatch ic r1 (p, rest, g))) = x # xs"
      by (simp add: rmatch.simps)
    from hd_concat_mem [OF this] obtain y ys' where
      y: "y \<in> set (rmatch ic r1 (p, rest, g))" and r2: "rmatch ic r2 y = x # ys'" by auto
    obtain p1 rest1 g1 where y_eq: "y = (p1, rest1, g1)" by (cases y)
    from rmatch_suffix [OF y [unfolded y_eq]] clean_text have "clean_text rest1" using clean_text_suffix by blast
    with assms r2 y_eq have "clause_ok x" unfolding head_ok_def by (metis list.simps(5))
    with Cons show ?thesis by simp
  qed
qed

lemma head_ok_foldr: "head_ok ic r \<Longrightarrow> head_ok ic (foldr Cat fs r)"
  by (induction fs) (simp_all add: head_ok_Cat)

lemma head_ok_task_patterns: "pat \<in> set TASK_PATTERNS \<Longrightarrow> head_ok ic pat"
  unfolding TASK_PATTERNS_def
  by (auto simp only: set_simps insert_iff empty_iff task_pattern_shapes
      intro!: head_ok_Cat head_ok_foldr head_ok_clause)

lemma strip_nonempty: "t \<noteq> [] \<Longrightarrow> \<not> is_space (hd t) \<Longrightarrow> strip t \<noteq> []"
proof -
  assume t: "t \<noteq> []" and h: "\<not> is_space (hd t)"
  then have d: "dropWhile is_space t = t" by (cases t) auto
  have "hd t \<in> set (rev t)" using t by simp
  with h have "dropWhile is_space (rev t) \<noteq> []" by (auto simp: dropWhile_eq_Nil_conv)
  with d show ?thesis by (simp add: strip_def)
qed

lemma match_at_good:
  assumes "pat \<in> set TASK_PATTERNS" and "clean_text s" and "match_at ic pat prev s = Some m"
  shows "\<exists>t. group m 2 = Some t \<and> strip t \<noteq> []"
proof (cases "rmatch ic pat (prev, s, [])")
  case Nil
  with assms(3) show ?thesis by (simp add: match_at_def)
next
  case (Cons x xs)
  from head_ok_task_patterns [OF assms(1), of ic] assms(2) Cons have "clause_ok x"
    unfolding head_ok_def by (metis list.simps(5))
  then obtain p' r' t g0 where x: "x = (p', r', (2, t) # g0)" "t \<noteq> []" "\<not> is_space (hd t)"
    by (auto simp: clause_ok_def split: prod.splits list.splits)
  with Cons assms(3) have "group m 2 = Some t" by (auto simp: match_at_def group_def)
  with x strip_nonempty show ?thesis by blast
qed

lemma clean_text_tl: "clean_text (c # cs) \<Longrightarrow> clean_text cs"
  using clean_text_suffix [of "[c]" cs] by simp

lemma search_from_good:
  "pat \<in> set TASK_PATTERNS \<Longrightarrow> clean_text s \<Longrightarrow> search_from ic pat prev s = Some m \<Longrightarrow>
     \<exists>t. group m 2 = Some t \<and> strip t \<noteq> []"
proof (induction s arbitrary: prev)
  case Nil
  then show ?case using match_at_good by simp
next
  case (Cons c cs)
  show ?case
  proof (cases "match_at ic pat prev (c # cs)")
    case None
    with Cons.prems have "search_from ic pat (Some c) cs = Some m" by simp
    from Cons.IH [OF Cons.prems(1) clean_text_tl [OF Cons.prems(2)] this] show ?thesis .
  next
    case (Some m')
    with Cons.prems have "m' = m" by simp
    with Some Cons.prems(1,2) show ?thesis using match_at_good by blast
  qed
qed

lemma emitted_task_clause:
  assumes "pat \<in> set TASK_PATTERNS" and "emitted_task pat s = Some t"
  shows "\<exists>c. c \<noteq> [] \<and> task t = strip c"
proof -
  from assms(2) obtain m c where m: "re_search False pat s = Some m" "group m 2 = Some c"
    "task t = strip c"
    by (auto simp: emitted_task_def split: option.splits)
  from re_search_task_patterns [OF assms(1) m(1)] m(2) have "c \<noteq> []" by auto
  with m(3) show ?thesis by blast
qed

lemma emitted_task_good:
  assumes "pat \<in> set TASK_PATTERNS" and "clean_text s" and "emitted_task pat s = Some t"
  shows "task t \<noteq> []"
proof -
  from assms(3) obtain m c where m: "re_search False pat s = Some m" "group m 2 = Some c"
    "task t = strip c"
    by (auto simp: emitted_task_def split: option.splits)
  from search_from_good [OF assms(1,2) m(1) [unfolded re_search_def]] m(2,3)
  show ?thesis by auto
qed

lemma set_map_filter: "set (List.map_filter f xs) = {y. \<exists>x \<in> set xs. f x = Some y}"
  by (induction xs) (auto simp: List.map_filter_simps split: option.splits)

lemma sentences_loop_result:
  "\<exists>st'. sentences_loop ss st = Inr st' \<and>
     (\<forall>t \<in> set (acc_tasks st'). t \<in> set (acc_tasks st) \<or>
         (\<exists>s \<in> set ss. \<exists>pat \<in> set TASK_PATTERNS. emitted_task pat s = Some t))"
proof (induction ss arbitrary: st)
  case Nil
  then show ?case by simp
next
  case (Cons s ss)
  let ?st1 = "\<lparr>acc_action_points = acc_action_points st @
              (if \<exists>k \<in> set KEYWORDS. contains (lower s) k then [s] else []),
          acc_tasks = acc_tasks st @ List.map_filter (\<lambda>pat. emitted_task pat s) TASK_PATTERNS,
          acc_deadlines = acc_deadlines st @
              concat (map (\<lambda>t. opt_list (deadline t))
                        (List.map_filter (\<lambda>pat. emitted_task pat s) TASK_PATTERNS)) @
              List.map_filter (\<lambda>dp. map_option whole (re_search True dp s)) DEADLINE_PATTERNS\<rparr>"
  from Cons.IH [of ?st1] obtain st' where st': "sentences_loop ss ?st1 = Inr st'"
    and t: "\<forall>t \<in> set (acc_tasks st'). t \<in> set (acc_tasks ?st1) \<or>
         (\<exists>s \<in> set ss. \<exists>pat \<in> set TASK_PATTERNS. emitted_task pat s = Some t)" by blast
  have "sentences_loop (s # ss) st = Inr st'"
    using st' by (simp add: sentence_step_result)
  moreover have "\<forall>t \<in> set (acc_tasks st'). t \<in> set (acc_tasks st) \<or>
         (\<exists>s' \<in> set (s # ss). \<exists>pat \<in> set TASK_PATTERNS. emitted_task pat s' = Some t)"
    using t by (auto simp: set_map_filter)
  ultimately show ?case by blast
qed

section \<open>Splitting into sentences\<close>

lemma in_range_same [simp]: "in_range c c a \<longleftrightarrow> a = c"
  by (auto simp: in_range_def)

lemma punct_not_space:
  "\<not> is_space CHR ''.''" "\<not> is_space CHR ''!''" "\<not> is_space CHR ''?''"
  by (simp_all add: is_space_def in_range_def less_eq_char_def)

lemma match_at_split:
  "match_at False SENTENCE_SPLIT prev s =
     (if (\<exists>a. prev = Some a \<and> (a = CHR ''.'' \<or> a = CHR ''!'' \<or> a = CHR ''?'')) \<and>
         takeWhile is_space s \<noteq> []
      then Some \<lparr>whole = takeWhile is_space s, captured = []\<rparr> else None)"
proof (cases "(\<exists>a. prev = Some a \<and> (a = CHR ''.'' \<or> a = CHR ''!'' \<or> a = CHR ''?''))")
  case False
  then have "rmatch False SENTENCE_SPLIT (prev, s, []) = []"
    by (cases prev) (auto simp: SENTENCE_SPLIT_def rmatch.simps)
  with False show ?thesis by (simp add: match_at_def)
next
  case True
  then have lb: "rmatch False (Lookbehind (Ranges [(CHR ''.'', CHR ''.''), (CHR ''!'', CHR ''!''), (CHR ''?'', CHR ''?'')])) (prev, s, []) = [(prev, s, [])]"
    by (auto simp: rmatch.simps)
  let ?m = "length (takeWhile is_space s)"
  show ?thesis
  proof (cases "?m = 0")
    case True
    then have "rmatch False SENTENCE_SPLIT (prev, s, []) = []"
      using lb by (simp add: SENTENCE_SPLIT_def rmatch.simps Let_def)
    with True show ?thesis by (simp add: match_at_def)
  next
    case False
    then have r: "rev [1..<Suc ?m] = ?m # rev [1..<?m]" by (simp add: Suc_le_eq)
    have adv: "advance (prev, s, []) ?m = (Some (s ! (?m - 1)), dropWhile is_space s, [])"
      using False by (simp add: advance_def dropWhile_eq_drop)
    have "rmatch False SENTENCE_SPLIT (prev, s, []) =
        (Some (s ! (?m - 1)), dropWhile is_space s, []) # map (advance (prev, s, [])) (rev [1..<?m])"
      using lb r adv by (simp add: SENTENCE_SPLIT_def rmatch.simps Let_def del: upt_Suc)
    moreover have "take (length s - length (dropWhile is_space s)) s = takeWhile is_space s"
      by (metis add_diff_cancel_right' append_eq_conv_conj length_append takeWhile_dropWhile_id)
    ultimately show ?thesis using True False by (simp add: match_at_def)
  qed
qed

lemma split_scan_good:
  "NL \<notin> set cur \<Longrightarrow> NL \<notin> set rest \<Longrightarrow> (cur \<noteq> [] \<longrightarrow> prev = Some (hd cur)) \<Longrightarrow>
   (rest \<noteq> [] \<longrightarrow> \<not> is_space (last rest)) \<Longrightarrow> (rest = [] \<longrightarrow> cur = [] \<or> \<not> is_space (hd cur)) \<Longrightarrow>
   skip \<le> length (takeWhile is_space rest) \<Longrightarrow> (0 < skip \<longrightarrow> cur = []) \<Longrightarrow>
   \<forall>piece \<in> set (split_scan SENTENCE_SPLIT prev cur rest skip). clean_text piece"
proof (induction rest arbitrary: prev cur skip)
  case Nil
  then show ?case by (auto simp: clean_text_def last_rev)
next
  case (Cons c cs)
  have nl: "NL \<notin> set cs" "c \<noteq> NL" using Cons.prems(2) by auto
  have last_cs: "cs \<noteq> [] \<longrightarrow> \<not> is_space (last cs)" using Cons.prems(4) by auto
  have c_last: "cs = [] \<longrightarrow> \<not> is_space c" using Cons.prems(4) by auto
  show ?case
  proof (cases "0 < skip")
    case True
    with Cons.prems(6,7) have sp: "is_space c" and cur: "cur = []"
      and sk: "skip - 1 \<le> length (takeWhile is_space cs)"
      by (auto split: if_splits)
    have "\<forall>piece \<in> set (split_scan SENTENCE_SPLIT (Some c) cur cs (skip - 1)). clean_text piece"
      by (rule Cons.IH) (use cur nl last_cs sk in auto)
    with True show ?thesis by simp
  next
    case False
    then have skip0: "skip = 0" by simp
    let ?hit = "(\<exists>a. prev = Some a \<and> (a = CHR ''.'' \<or> a = CHR ''!'' \<or> a = CHR ''?'')) \<and>
         takeWhile is_space (c # cs) \<noteq> []"
    show ?thesis
    proof (cases ?hit)
      case False
      then have m: "match_at False SENTENCE_SPLIT prev (c # cs) = None"
        unfolding match_at_split by (rule if_not_P)
      have "\<forall>piece \<in> set (split_scan SENTENCE_SPLIT (Some c) (c # cur) cs 0). clean_text piece"
        by (rule Cons.IH) (use Cons.prems(1) nl last_cs c_last in auto)
      with m skip0 show ?thesis by simp
    next
      case True
      then have m: "match_at False SENTENCE_SPLIT prev (c # cs) =
          Some \<lparr>whole = takeWhile is_space (c # cs), captured = []\<rparr>"
        unfolding match_at_split by (rule if_P)
      from True have sp: "is_space c" by (auto split: if_splits)
      then have len: "length (takeWhile is_space (c # cs)) = Suc (length (takeWhile is_space cs))"
        by simp
      from True obtain a where a: "prev = Some a" "\<not> is_space a"
        using punct_not_space by auto
      have gcur: "clean_text (rev cur)"
        using Cons.prems(1,3) a by (cases cur) (auto simp: clean_text_def)
      have "\<forall>piece \<in> set (split_scan SENTENCE_SPLIT (Some c) [] cs (length (takeWhile is_space cs))). clean_text piece"
        by (rule Cons.IH) (use nl last_cs sp c_last in auto)
      with m skip0 len gcur show ?thesis by simp
    qed
  qed
qed

lemma re_split_good: "clean_text text \<Longrightarrow> \<forall>s \<in> set (re_split SENTENCE_SPLIT text). clean_text s"
  unfolding re_split_def
  by (rule split_scan_good) (auto simp: clean_text_def)

section \<open>Defaults of the model extraction\<close>

lemma map_of_setdefault:
  "map_of (setdefault d k v) k' = (if k' = k \<and> map_of d k = None then Some v else map_of d k')"
  by (auto simp: setdefault_def map_of_append map_add_def split: option.splits)

lemma map_of_sanity_defaults:
  "map_of (sanity_defaults parsed) k =
     (case map_of parsed k of Some v \<Rightarrow> Some v | None \<Rightarrow> map_of DEFAULTS k)"
  by (simp add: sanity_defaults_def map_of_setdefault DEFAULTS_def split: option.splits)

section \<open>Saving the upload, and the report sections\<close>

lemma save_loop_no_fault: "save_loop None pending written = (None, written @ pending)"
proof (induction "None :: nat option" pending written rule: save_loop.induct)
  case (1 pending written)
  show ?case
  proof (cases "take (1024 * 1024) pending = []")
    case True
    then have "pending = []" by (cases pending) simp_all
    then show ?thesis by (subst save_loop.simps) simp
  next
    case False
    have "save_loop None pending written =
        save_loop None (drop (1024 * 1024) pending) (written @ take (1024 * 1024) pending)"
      using False by (subst save_loop.simps) simp
    also have "\<dots> = (None, (written @ take (1024 * 1024) pending) @ drop (1024 * 1024) pending)"
      using "1" False by blast
    finally show ?thesis by simp
  qed
qed

lemma save_upload_no_fault:
  "io_fault_after u = None \<Longrightarrow>
   save_upload e u w = (Inr (tmp_path_of e u), w\<lparr>files := (files w)(tmp_path_of e u \<mapsto> content u)\<rparr>)"
  by (simp add: save_upload_def Let_def save_loop_no_fault)

lemma lower_append: "lower (a @ b) = lower a @ lower b"
  by (simp add: lower_def)

lemma failure_sentinels_suppressed:
  "email_section (''Email generation failed: '' @ m) =
     ''- **Follow-up emails**'' @ [NL] @ ''  - Could not generate email.'' @ [NL] @ [NL]"
  "email_section [] =
     ''- **Follow-up emails**'' @ [NL] @ ''  - Could not generate email.'' @ [NL] @ [NL]"
  "whatsapp_section (''WhatsApp summary failed: '' @ m) =
     MARK4 @ '' **Sends it to**'' @ [NL] @
     ''- **WhatsApp** '' @ DASH @ '' copy & paste this recap:'' @ [NL, NL] @
     ''_No WhatsApp summary generated._'' @ [NL] @ [NL]"
proof -
  have l1: "lower ''Email generation failed: '' = ''email generation failed: ''" by code_simp
  have l2: "lower ''WhatsApp summary failed: '' = ''whatsapp summary failed: ''" by code_simp
  show "email_section (''Email generation failed: '' @ m) =
     ''- **Follow-up emails**'' @ [NL] @ ''  - Could not generate email.'' @ [NL] @ [NL]"
    unfolding email_section_def lower_append l1 by (simp add: startswith_def)
  show "email_section [] =
     ''- **Follow-up emails**'' @ [NL] @ ''  - Could not generate email.'' @ [NL] @ [NL]"
    by (simp add: email_section_def)
  show "whatsapp_section (''WhatsApp summary failed: '' @ m) =
     MARK4 @ '' **Sends it to**'' @ [NL] @
     ''- **WhatsApp** '' @ DASH @ '' copy & paste this recap:'' @ [NL, NL] @
     ''_No WhatsApp summary generated._'' @ [NL] @ [NL]"
    unfolding whatsapp_section_def lower_append l2 by (simp add: startswith_def)
qed

lemma format_sections:
  assumes "format_markdown_block e data em wa = Inr out"
  shows "\<exists>head. out = head @ email_section em @ whatsapp_section wa @
           ''- **Email** '' @ DASH @
           '' use the follow-up email draft above to send to participants.'' @ [NL]"
  using assms unfolding format_markdown_block_def Let_def
  by (auto split: sum.splits if_splits)

section \<open>The calls to the model\<close>

lemma quiet_refl [simp]: "quiet w w"
  by (simp add: quiet_def)

lemma quiet_trans: "quiet w w1 \<Longrightarrow> quiet w1 w2 \<Longrightarrow> quiet w w2"
  by (fastforce simp: quiet_def)

lemma quiet_calls_eq: "calls w' = calls w \<Longrightarrow> quiet w w'"
  by (simp add: quiet_def)

lemma quiet_call_model:
  "\<not> is_translate c \<Longrightarrow> call_model e c w = (r, w') \<Longrightarrow> quiet w w'"
  by (auto simp: call_model_def quiet_def)

lemma quiet_extract_structured:
  "gemini_extract_structured e text w = (r, w') \<Longrightarrow> quiet w w'"
  by (auto simp: gemini_extract_structured_def quiet_def call_model_def
      split: if_splits sum.splits prod.splits)

lemma quiet_extract_with_fallback:
  "extract_with_fallback e text w = (r, w') \<Longrightarrow> quiet w w'"
  by (auto simp: extract_with_fallback_def split: sum.splits prod.splits
      dest: quiet_extract_structured)

lemma quiet_email:
  "gemini_generate_followup_email e s t w = (r, w') \<Longrightarrow> quiet w w'"
  by (auto simp: gemini_generate_followup_email_def quiet_def call_model_def
      split: if_splits sum.splits prod.splits)

lemma quiet_whatsapp:
  "gemini_generate_whatsapp e s w = (r, w') \<Longrightarrow> quiet w w'"
  by (auto simp: gemini_generate_whatsapp_def quiet_def call_model_def
      split: if_splits sum.splits prod.splits)

lemma respond_no_translation:
  assumes "\<not> wants_translation tgt" and "respond e transcript diar tgt w = (r, w')"
  shows "quiet w w' \<and> (\<forall>resp. r = Inr resp \<longrightarrow> resp_translated_summary resp = JNull)"
proof (cases "extract_with_fallback e transcript w")
  case (Pair x w1)
  note q1 = quiet_extract_with_fallback [OF Pair]
  show ?thesis
  proof (cases x)
    case (Inl y)
    with Pair assms(2) q1 show ?thesis by (auto simp: respond_def)
  next
    case (Inr nd)
    obtain nt extracted where nd: "nd = (nt, extracted)" by (cases nd)
    let ?s = "dict_get_default extracted ''summary'' (JStr [])"
    let ?t = "dict_get_default extracted ''tasks'' (JArr [])"
    obtain em w2 where em: "gemini_generate_followup_email e ?s ?t w1 = (em, w2)"
      by (cases "gemini_generate_followup_email e ?s ?t w1")
    obtain wa w3 where wa: "gemini_generate_whatsapp e ?s w2 = (wa, w3)"
      by (cases "gemini_generate_whatsapp e ?s w2")
    have q: "quiet w w3"
      using q1 quiet_email [OF em] quiet_whatsapp [OF wa] quiet_trans by blast
    from assms Pair Inr nd em wa have
      "(r, w') = (case format_markdown_block e extracted em wa of
           Inl x \<Rightarrow> (Inl (Unhandled x), w3)
         | Inr md \<Rightarrow> (Inr \<lparr>resp_transcript = transcript, resp_diarization = diar,
               resp_summary = ?s,
               resp_action_points = dict_get_default extracted ''action_points'' (JArr []),
               resp_tasks = ?t,
               resp_deadlines = dict_get_default extracted ''deadlines'' (JArr []),
               resp_speakers = dict_get_default extracted ''speakers'' (JArr []),
               resp_structured_summary = md, resp_followup_email = em, resp_whatsapp = wa,
               resp_translated_summary = JNull, resp_target_lang = tgt, resp_note = nt\<rparr>, w3))"
      by (simp add: respond_def Let_def)
    with q show ?thesis by (auto split: sum.splits)
  qed
qed

section \<open>The stages of the endpoint\<close>

lemma save_upload_calls: "save_upload e u w = (r, w1) \<Longrightarrow> calls w1 = calls w"
  by (auto simp: save_upload_def Let_def split: prod.splits option.splits if_splits)

lemma convert_calls: "convert_to_wav e p w = (r, w1) \<Longrightarrow> calls w1 = calls w"
  by (auto simp: convert_to_wav_def Let_def split: prod.splits option.splits sum.splits)

lemma cleanup_calls: "calls (cleanup e p q w) = calls w"
  by (auto simp: cleanup_def Let_def split: option.splits)

lemma call_model_files: "call_model e c w = (r, w') \<Longrightarrow> files w' = files w"
  by (auto simp: call_model_def)

lemma extract_structured_files: "gemini_extract_structured e t w = (r, w') \<Longrightarrow> files w' = files w"
  by (auto simp: gemini_extract_structured_def call_model_def
      split: if_splits sum.splits prod.splits)

lemma extract_with_fallback_files: "extract_with_fallback e t w = (r, w') \<Longrightarrow> files w' = files w"
  by (auto simp: extract_with_fallback_def split: sum.splits prod.splits
      dest: extract_structured_files)

lemma email_files: "gemini_generate_followup_email e s t w = (r, w') \<Longrightarrow> files w' = files w"
  by (auto simp: gemini_generate_followup_email_def call_model_def
      split: if_splits sum.splits prod.splits)

lemma whatsapp_files: "gemini_generate_whatsapp e s w = (r, w') \<Longrightarrow> files w' = files w"
  by (auto simp: gemini_generate_whatsapp_def call_model_def
      split: if_splits sum.splits prod.splits)

lemma translate_files: "gemini_translate_summary e s l w = (r, w') \<Longrightarrow> files w' = files w"
  by (auto simp: gemini_translate_summary_def call_model_def
      split: if_splits sum.splits prod.splits)

text \<open>The stages of \<open>respond\<close>, named.\<close>

lemma respond_stages:
  assumes "respond e transcript diar tgt w = (r, w')"
  shows "(\<exists>x. extract_with_fallback e transcript w = (Inl x, w') \<and> r = Inl (Unhandled x)) \<or>
    (\<exists>nt extracted w1 em w2 wa w3 tr.
       extract_with_fallback e transcript w = (Inr (nt, extracted), w1) \<and>
       gemini_generate_followup_email e (dict_get_default extracted ''summary'' (JStr []))
         (dict_get_default extracted ''tasks'' (JArr [])) w1 = (em, w2) \<and>
       gemini_generate_whatsapp e (dict_get_default extracted ''summary'' (JStr [])) w2 = (wa, w3) \<and>
       (if wants_translation tgt
        then gemini_translate_summary e (dict_get_default extracted ''summary'' (JStr [])) (the tgt) w3
        else (JNull, w3)) = (tr, w') \<and>
       (case format_markdown_block e extracted em wa of
          Inl x \<Rightarrow> r = Inl (Unhandled x)
        | Inr md \<Rightarrow> r = Inr \<lparr>resp_transcript = transcript, resp_diarization = diar,
               resp_summary = dict_get_default extracted ''summary'' (JStr []),
               resp_action_points = dict_get_default extracted ''action_points'' (JArr []),
               resp_tasks = dict_get_default extracted ''tasks'' (JArr []),
               resp_deadlines = dict_get_default extracted ''deadlines'' (JArr []),
               resp_speakers = dict_get_default extracted ''speakers'' (JArr []),
               resp_structured_summary = md, resp_followup_email = em, resp_whatsapp = wa,
               resp_translated_summary = tr, resp_target_lang = tgt, resp_note = nt\<rparr>))"
proof (cases "extract_with_fallback e transcript w")
  case (Pair x w1)
  show ?thesis
  proof (cases x)
    case (Inl y)
    with Pair assms show ?thesis by (auto simp: respond_def)
  next
    case (Inr nd)
    obtain nt extracted where nd: "nd = (nt, extracted)" by (cases nd)
    let ?s = "dict_get_default extracted ''summary'' (JStr [])"
    let ?t = "dict_get_default extracted ''tasks'' (JArr [])"
    obtain em w2 where em: "gemini_generate_followup_email e ?s ?t w1 = (em, w2)"
      by (cases "gemini_generate_followup_email e ?s ?t w1")
    obtain wa w3 where wa: "gemini_generate_whatsapp e ?s w2 = (wa, w3)"
      by (cases "gemini_generate_whatsapp e ?s w2")
    obtain tr w4 where tr: "(if wants_translation tgt
        then gemini_translate_summary e ?s (the tgt) w3 else (JNull, w3)) = (tr, w4)"
      by (cases "(if wants_translation tgt
        then gemini_translate_summary e ?s (the tgt) w3 else (JNull, w3))")
    from assms Pair Inr nd em wa tr have
      "(r, w') = (case format_markdown_block e extracted em wa of
           Inl x \<Rightarrow> (Inl (Unhandled x), w4)
         | Inr md \<Rightarrow> (Inr \<lparr>resp_transcript = transcript, resp_diarization = diar,
               resp_summary = ?s,
               resp_action_points = dict_get_default extracted ''action_points'' (JArr []),
               resp_tasks = ?t,
               resp_deadlines = dict_get_default extracted ''deadlines'' (JArr []),
               resp_speakers = dict_get_default extracted ''speakers'' (JArr []),
               resp_structured_summary = md, resp_followup_email = em, resp_whatsapp = wa,
               resp_translated_summary = tr, resp_target_lang = tgt, resp_note = nt\<rparr>, w4))"
      by (simp add: respond_def Let_def)
    then have "w' = w4" and "case format_markdown_block e extracted em wa of
          Inl x \<Rightarrow> r = Inl (Unhandled x)
        | Inr md \<Rightarrow> r = Inr \<lparr>resp_transcript = transcript, resp_diarization = diar,
               resp_summary = ?s,
               resp_action_points = dict_get_default extracted ''action_points'' (JArr []),
               resp_tasks = ?t,
               resp_deadlines = dict_get_default extracted ''deadlines'' (JArr []),
               resp_speakers = dict_get_default extracted ''speakers'' (JArr []),
               resp_structured_summary = md, resp_followup_email = em, resp_whatsapp = wa,
               resp_translated_summary = tr, resp_target_lang = tgt, resp_note = nt\<rparr>"
      by (auto split: sum.splits)
    with Pair Inr nd em wa tr show ?thesis by blast
  qed
qed

lemma respond_files: "respond e transcript diar tgt w = (r, w') \<Longrightarrow> files w' = files w"
  by (drule respond_stages)
     (auto dest!: extract_with_fallback_files email_files whatsapp_files translate_files
           split: if_splits)

lemma pipeline_stages:
  assumes "pipeline e tmp tgt w = (r, wavopt, w')"
  shows "(\<exists>x. convert_to_wav e tmp w = (Inl x, w') \<and> r = Inl (Unhandled x) \<and> wavopt = None) \<or>
    (\<exists>wav w1. convert_to_wav e tmp w = (Inr wav, w1) \<and> wavopt = Some wav \<and>
       ((\<exists>x. transcribe_audio e wav w1 = Inl x \<and> r = Inl (Unhandled x) \<and> w' = w1) \<or>
        (\<exists>transcript diar. transcribe_audio e wav w1 = Inr (transcript, diar) \<and>
           (if strip transcript = []
            then r = Inl (HTTPException 400 ''Transcription is empty.'') \<and> w' = w1
            else respond e transcript diar tgt w1 = (r, w')))))"
  using assms
  by (auto simp: pipeline_def split: prod.splits sum.splits if_splits)

lemma respond_Inr:
  assumes "respond e transcript diar tgt w = (Inr resp, w')"
  shows "resp_transcript resp = transcript \<and> resp_diarization resp = diar \<and>
    (\<exists>nt extracted w1 w3.
       extract_with_fallback e transcript w = (Inr (nt, extracted), w1) \<and>
       resp_note resp = nt \<and>
       resp_summary resp = dict_get_default extracted ''summary'' (JStr []) \<and>
       resp_tasks resp = dict_get_default extracted ''tasks'' (JArr []) \<and>
       (if wants_translation tgt
        then gemini_translate_summary e (resp_summary resp) (the tgt) w3
        else (JNull, w3)) = (resp_translated_summary resp, w'))"
  using respond_stages [OF assms]
proof (elim disjE exE conjE)
  fix x assume "Inr resp = Inl (Unhandled x)"
  then show ?thesis by simp
next
  fix nt extracted w1 em w2 wa w3 tr
  assume x: "extract_with_fallback e transcript w = (Inr (nt, extracted), w1)"
    and t: "(if wants_translation tgt
        then gemini_translate_summary e (dict_get_default extracted ''summary'' (JStr [])) (the tgt) w3
        else (JNull, w3)) = (tr, w')"
    and f: "case format_markdown_block e extracted em wa of
          Inl x \<Rightarrow> Inr resp = Inl (Unhandled x)
        | Inr md \<Rightarrow> Inr resp = Inr \<lparr>resp_transcript = transcript, resp_diarization = diar,
               resp_summary = dict_get_default extracted ''summary'' (JStr []),
               resp_action_points = dict_get_default extracted ''action_points'' (JArr []),
               resp_tasks = dict_get_default extracted ''tasks'' (JArr []),
               resp_deadlines = dict_get_default extracted ''deadlines'' (JArr []),
               resp_speakers = dict_get_default extracted ''speakers'' (JArr []),
               resp_structured_summary = md, resp_followup_email = em, resp_whatsapp = wa,
               resp_translated_summary = tr, resp_target_lang = tgt, resp_note = nt\<rparr>"
  show ?thesis
  proof (cases "format_markdown_block e extracted em wa")
    case (Inl y)
    with f show ?thesis by simp
  next
    case (Inr md)
    with f have "resp = \<lparr>resp_transcript = transcript, resp_diarization = diar,
               resp_summary = dict_get_default extracted ''summary'' (JStr []),
               resp_action_points = dict_get_default extracted ''action_points'' (JArr []),
               resp_tasks = dict_get_default extracted ''tasks'' (JArr []),
               resp_deadlines = dict_get_default extracted ''deadlines'' (JArr []),
               resp_speakers = dict_get_default extracted ''speakers'' (JArr []),
               resp_structured_summary = md, resp_followup_email = em, resp_whatsapp = wa,
               resp_translated_summary = tr, resp_target_lang = tgt, resp_note = nt\<rparr>"
      by simp
    with x t show ?thesis by auto
  qed
qed

lemma summarize_stages:
  assumes "summarize_meeting e u tgt w = (r, w')"
  shows "(\<exists>x. save_upload e u w = (Inl x, w') \<and> r = Inl x) \<or>
    (\<exists>tmp w1 wavopt w2. save_upload e u w = (Inr tmp, w1) \<and>
        pipeline e tmp tgt w1 = (r, wavopt, w2) \<and> w' = cleanup e tmp wavopt w2)"
  using assms by (auto simp: summarize_meeting_def split: prod.splits sum.splits)

lemma pipeline_no_translation:
  assumes "\<not> wants_translation tgt" and "pipeline e tmp tgt w = (r, wavopt, w')"
  shows "quiet w w' \<and> (\<forall>resp. r = Inr resp \<longrightarrow> resp_translated_summary resp = JNull)"
  using pipeline_stages [OF assms(2)]
proof (elim disjE exE conjE)
  fix x assume "convert_to_wav e tmp w = (Inl x, w')" "r = Inl (Unhandled x)"
  then show ?thesis by (auto dest: convert_calls intro: quiet_calls_eq)
next
  fix wav w1 x
  assume "convert_to_wav e tmp w = (Inr wav, w1)" "r = Inl (Unhandled x)" "w' = w1"
  then show ?thesis by (auto dest: convert_calls intro: quiet_calls_eq)
next
  fix wav w1 transcript diar
  assume c: "convert_to_wav e tmp w = (Inr wav, w1)"
    and i: "if strip transcript = []
            then r = Inl (HTTPException 400 ''Transcription is empty.'') \<and> w' = w1
            else respond e transcript diar tgt w1 = (r, w')"
  have q: "quiet w w1" using convert_calls [OF c] by (rule quiet_calls_eq)
  show ?thesis
  proof (cases "strip transcript = []")
    case True
    with i q show ?thesis by auto
  next
    case False
    with i have "respond e transcript diar tgt w1 = (r, w')" by simp
    from respond_no_translation [OF assms(1) this] q show ?thesis
      using quiet_trans by blast
  qed
qed

lemma summarize_no_translation:
  assumes "\<not> wants_translation tgt" and "summarize_meeting e u tgt w = (r, w')"
  shows "quiet w w' \<and> (\<forall>resp. r = Inr resp \<longrightarrow> resp_translated_summary resp = JNull)"
  using summarize_stages [OF assms(2)]
proof (elim disjE exE conjE)
  fix x assume "save_upload e u w = (Inl x, w')" "r = Inl x"
  then show ?thesis by (auto dest: save_upload_calls intro: quiet_calls_eq)
next
  fix tmp w1 wavopt w2
  assume s: "save_upload e u w = (Inr tmp, w1)" and p: "pipeline e tmp tgt w1 = (r, wavopt, w2)"
    and c: "w' = cleanup e tmp wavopt w2"
  have "quiet w w1" using save_upload_calls [OF s] by (rule quiet_calls_eq)
  moreover from pipeline_no_translation [OF assms(1) p] have "quiet w1 w2"
    and r: "\<forall>resp. r = Inr resp \<longrightarrow> resp_translated_summary resp = JNull" by simp_all
  moreover have "quiet w2 w'" using c by (simp add: quiet_calls_eq cleanup_calls)
  ultimately show ?thesis using quiet_trans by blast
qed

lemma summarize_Inr:
  assumes "summarize_meeting e u tgt w = (Inr resp, w')"
  shows "\<exists>w0 w2. calls w0 = calls w \<and> resp_transcript resp \<noteq> [] \<and>
           respond e (resp_transcript resp) (resp_diarization resp) tgt w0 = (Inr resp, w2)"
proof -
  from summarize_stages [OF assms] obtain tmp w1 wavopt w2 where
    s: "save_upload e u w = (Inr tmp, w1)" and p: "pipeline e tmp tgt w1 = (Inr resp, wavopt, w2)"
    by auto
  from pipeline_stages [OF p] obtain wav wc transcript diar where
    c: "convert_to_wav e tmp w1 = (Inr wav, wc)" and ne: "strip transcript \<noteq> []"
    and r: "respond e transcript diar tgt wc = (Inr resp, w2)"
    by (auto split: if_splits)
  from respond_Inr [OF r] have "resp_transcript resp = transcript" "resp_diarization resp = diar"
    by simp_all
  moreover have "calls wc = calls w" using save_upload_calls [OF s] convert_calls [OF c] by simp
  moreover from ne have "transcript \<noteq> []" by (auto simp: strip_def)
  ultimately show ?thesis using r by blast
qed

lemma lower_Nil_iff: "lower l = [] \<longleftrightarrow> l = []"
  by (simp add: lower_def)

lemma translate_result:
  "fst (gemini_translate_summary e s l w) =
     (if gemini_model e \<and> l \<noteq> []
      then (case generate_content e (length (calls w)) (TranslateCall s l) of
              Inl x \<Rightarrow> s
            | Inr t \<Rightarrow> if strip (text_or_empty t) \<noteq> [] then JStr (strip (text_or_empty t)) else s)
      else s)"
  by (simp add: gemini_translate_summary_def call_model_def split: sum.splits)

section \<open>Worked runs of the endpoint\<close>

lemmas endpoint_defs =
  summarize_meeting_def save_upload_no_fault tmp_path_of_def pipeline_def convert_to_wav_def
  transcribe_audio_def respond_def extract_with_fallback_def gemini_extract_structured_def
  call_model_def parse_response_def str_find_def str_rfind_def sanity_defaults_def setdefault_def
  text_or_empty_def gemini_generate_followup_email_def gemini_generate_whatsapp_def
  gemini_translate_summary_def wants_translation_def format_markdown_block_def
  dict_get_def dict_get_default_def py_or_def cleanup_def Let_def record_to_dict_def task_to_dict_def
  opt_str_def bullet_lines_def task_line_def

lemma strip_samples:
  "strip '' Al will go. '' = ''Al will go.''"
  "strip ''Al will go.'' = ''Al will go.''"
  "strip '' Hello team '' = ''Hello team''"
  "strip ''Hola'' = ''Hola''"
  "lower ''Spanish'' = ''spanish''"
  by code_simp+

lemma sample_run_plain:
  "case summarize_meeting sample_env sample_upload None empty_world of
     (Inl f, w') \<Rightarrow> False
   | (Inr resp, w') \<Rightarrow> resp_translated_summary resp = JNull \<and> resp_note resp = [] \<and>
       resp_summary resp = JStr ''No summary available.'' \<and>
       files w' ''/tmp/up_a'' = None \<and> files w' ''/tmp/up_a.wav'' = None \<and>
       calls w' = [ExtractCall ''Al will go.'', EmailCall (JStr ''No summary available.'') (JArr []),
                   WhatsappCall (JStr ''No summary available.'')]"
  by (simp add: endpoint_defs sample_env_def sample_upload_def empty_world_def strip_samples)

lemma sample_run_spanish:
  "case summarize_meeting sample_env sample_upload (Some ''Spanish'') empty_world of
     (Inl f, w') \<Rightarrow> False
   | (Inr resp, w') \<Rightarrow> resp_translated_summary resp = JStr ''Hola''"
  by (simp add: endpoint_defs sample_env_def sample_upload_def empty_world_def strip_samples)

lemma local_extract_al:
  "local_extract ''Al will go.'' =
     Inr \<lparr>summary = ''Al will go.'', action_points = [''Al will go.''],
          tasks = [\<lparr>speaker = Some ''Al'', assignee = Some ''Al'', task = ''go'',
                     deadline = None, source = ''Al will go.''\<rparr>],
          deadlines = [], speakers = []\<rparr>"
  by code_simp

lemma extract_structured_calls_only:
  "calls w0 = calls w \<Longrightarrow>
   fst (gemini_extract_structured e t w0) = fst (gemini_extract_structured e t w)"
  by (simp add: gemini_extract_structured_def call_model_def split: sum.splits)

lemma startswith_note: "startswith (''Note: Gemini failed, using local extraction instead. ('' @ m) ''Note: Gemini failed''"
  by (simp add: startswith_def)

section \<open>The temporary files\<close>

lemma cleanup_files:
  assumes "\<forall>p. \<not> unlink_fails e p"
  shows "files (cleanup e tmp wavopt w) =
     (case wavopt of None \<Rightarrow> (files w)(tmp := None)
      | Some p \<Rightarrow> (files w)(tmp := None, p := None))"
  using assms
  by (cases wavopt) (auto simp: cleanup_def Let_def fun_eq_iff)

lemma convert_files:
  assumes "\<forall>a x left. export_wav e a = Inl (x, left) \<longrightarrow> left = None"
    and "convert_to_wav e tmp w = (r, w1)"
  shows "case r of Inl x \<Rightarrow> files w1 = files w
         | Inr wav \<Rightarrow> wav = with_suffix_wav e tmp \<and> (\<exists>b. files w1 = (files w)(wav \<mapsto> b))"
  using assms
  by (auto simp: convert_to_wav_def Let_def split: option.splits sum.splits prod.splits)

lemma pipeline_files:
  assumes exp: "\<forall>a x left. export_wav e a = Inl (x, left) \<longrightarrow> left = None"
    and run: "pipeline e tmp tgt w = (r, wavopt, w')"
  shows "(wavopt = None \<and> files w' = files w) \<or>
         (wavopt = Some (with_suffix_wav e tmp) \<and> (\<exists>b. files w' = (files w)(with_suffix_wav e tmp \<mapsto> b)))"
  using pipeline_stages [OF run]
proof (elim disjE exE conjE)
  fix x assume c: "convert_to_wav e tmp w = (Inl x, w')" and "wavopt = None"
  with convert_files [OF exp c] show ?thesis by simp
next
  fix wav w1 x
  assume c: "convert_to_wav e tmp w = (Inr wav, w1)" and "wavopt = Some wav" and "w' = w1"
  with convert_files [OF exp c] show ?thesis by auto
next
  fix wav w1 transcript diar
  assume c: "convert_to_wav e tmp w = (Inr wav, w1)" and o: "wavopt = Some wav"
    and i: "if strip transcript = []
            then r = Inl (HTTPException 400 ''Transcription is empty.'') \<and> w' = w1
            else respond e transcript diar tgt w1 = (r, w')"
  have "files w' = files w1"
    using i by (auto split: if_splits dest: respond_files)
  with convert_files [OF exp c] o show ?thesis by auto
qed

lemma save_loop_fault0: "save_loop (Some 0) pending written = (Some (LibraryError ''I/O error''), written)"
  by (subst save_loop.simps) simp

text \<open>
  C9: the action points and the deadlines of the fallback extractor are the lists
  collected by the loop over the sentences with every repeated text removed: each text
  is kept once, at the place where it was first appended.
\<close>

theorem local_extract_dedup:
  assumes "local_extract text = Inr r"
  shows "\<exists>st. sentences_loop (re_split SENTENCE_SPLIT text) init_state = Inr st \<and>
           action_points r = first_seen (acc_action_points st) \<and>
           deadlines r = first_seen (acc_deadlines st) \<and>
           distinct (action_points r) \<and> set (action_points r) = set (acc_action_points st) \<and>
           distinct (deadlines r) \<and> set (deadlines r) = set (acc_deadlines st)"
proof (cases "sentences_loop (re_split SENTENCE_SPLIT text) init_state")
  case (Inl e)
  with assms show ?thesis by (simp add: local_extract_def Let_def)
next
  case (Inr st)
  with assms have r: "action_points r = dict_fromkeys [] (acc_action_points st)"
    "deadlines r = dict_fromkeys [] (acc_deadlines st)"
    by (auto simp: local_extract_def Let_def)
  show ?thesis
    using Inr r
    by (simp add: dict_fromkeys_first_seen [symmetric] dict_fromkeys_distinct dict_fromkeys_set)
qed

theorem local_extract_dedup_witness:
  "local_extract ''Bo must go by Monday. Al will go. Bo must go by Monday.'' =
     Inr \<lparr>summary = ''Bo must go by Monday. Al will go. Bo must go by Monday.'',
          action_points = [''Bo must go by Monday.'', ''Al will go.''],
          tasks = [\<lparr>speaker = Some ''Bo'', assignee = Some ''Bo'', task = ''go by Monday'',
                     deadline = Some ''by Monday'', source = ''Bo must go by Monday.''\<rparr>,
                   \<lparr>speaker = Some ''Al'', assignee = Some ''Al'', task = ''go'',
                     deadline = None, source = ''Al will go.''\<rparr>,
                   \<lparr>speaker = Some ''Bo'', assignee = Some ''Bo'', task = ''go by Monday'',
                     deadline = Some ''by Monday'', source = ''Bo must go by Monday.''\<rparr>],
          deadlines = [''by Monday''], speakers = []\<rparr> \<and>
   (\<exists>st. sentences_loop
           (re_split SENTENCE_SPLIT ''Bo must go by Monday. Al will go. Bo must go by Monday.'')
           init_state = Inr st \<and>
         [''Bo must go by Monday.'', ''Al will go.''] = first_seen (acc_action_points st) \<and>
         [''by Monday''] = first_seen (acc_deadlines st))"
proof -
  have h: "local_extract ''Bo must go by Monday. Al will go. Bo must go by Monday.'' =
     Inr \<lparr>summary = ''Bo must go by Monday. Al will go. Bo must go by Monday.'',
          action_points = [''Bo must go by Monday.'', ''Al will go.''],
          tasks = [\<lparr>speaker = Some ''Bo'', assignee = Some ''Bo'', task = ''go by Monday'',
                     deadline = Some ''by Monday'', source = ''Bo must go by Monday.''\<rparr>,
                   \<lparr>speaker = Some ''Al'', assignee = Some ''Al'', task = ''go'',
                     deadline = None, source = ''Al will go.''\<rparr>,
                   \<lparr>speaker = Some ''Bo'', assignee = Some ''Bo'', task = ''go by Monday'',
                     deadline = Some ''by Monday'', source = ''Bo must go by Monday.''\<rparr>],
          deadlines = [''by Monday''], speakers = []\<rparr>"
    by code_simp
  show ?thesis using h local_extract_dedup [OF h] by auto
qed

section \<open>The worked example\<close>

text \<open>
  C5: on the transcript of the specification the fallback extractor returns one task,
  assigned to Priya, whose text contains "send the report" and whose deadline is
  "by Friday"; "by Friday" is the only deadline, and the first sentence is the only
  action point.
\<close>

theorem local_extract_priya:
  "local_extract ''Priya will send the report by Friday. The team agreed on the new logo.'' =
     Inr \<lparr>summary = ''Priya will send the report by Friday. The team agreed on the new logo.'',
          action_points = [''Priya will send the report by Friday.''],
          tasks = [\<lparr>speaker = Some ''Priya'', assignee = Some ''Priya'',
                     task = ''send the report by Friday'', deadline = Some ''by Friday'',
                     source = ''Priya will send the report by Friday.''\<rparr>],
          deadlines = [''by Friday''], speakers = []\<rparr> \<and>
   contains ''send the report by Friday'' ''send the report''"
  by code_simp

section \<open>Task patterns and deadline scanning\<close>

text \<open>
  C1 as stated fails: the loop over the task patterns has no break, so a sentence that
  two patterns match yields two tasks.  In the transcript below, which is one sentence,
  the first pattern matches at "Bob will ..." and the third at "Amy assigned to ...".
\<close>

theorem one_task_per_sentence_counterexample:
  "re_split SENTENCE_SPLIT ''Bob will go and Amy assigned to clean.'' =
     [''Bob will go and Amy assigned to clean.''] \<and>
   local_extract ''Bob will go and Amy assigned to clean.'' =
     Inr \<lparr>summary = ''Bob will go and Amy assigned to clean.'',
          action_points = [''Bob will go and Amy assigned to clean.''],
          tasks = [\<lparr>speaker = Some ''Bob'', assignee = Some ''Bob'',
                     task = ''go and Amy assigned to clean'', deadline = None,
                     source = ''Bob will go and Amy assigned to clean.''\<rparr>,
                   \<lparr>speaker = Some ''Amy'', assignee = Some ''Amy'',
                     task = ''clean'', deadline = None,
                     source = ''Bob will go and Amy assigned to clean.''\<rparr>],
          deadlines = [], speakers = []\<rparr>"
  by code_simp

text \<open>
  C1, amended: for every sentence the task patterns are tried in their declared order and
  each pattern that matches emits one Task (none is skipped after a match, so a sentence
  yields as many Tasks as patterns match it); each of these Tasks appends its deadline,
  and after them the scan over the whole list of deadline patterns appends the phrase of
  every deadline pattern that matches.
\<close>

theorem sentence_step_every_pattern:
  "\<exists>st'. sentence_step s st = Inr st' \<and>
     acc_tasks st' = acc_tasks st @ List.map_filter (\<lambda>pat. emitted_task pat s) TASK_PATTERNS \<and>
     length (acc_tasks st') =
       length (acc_tasks st) + length (filter (\<lambda>pat. re_search False pat s \<noteq> None) TASK_PATTERNS) \<and>
     acc_deadlines st' =
       acc_deadlines st @
       concat (map (\<lambda>t. opt_list (deadline t))
                 (List.map_filter (\<lambda>pat. emitted_task pat s) TASK_PATTERNS)) @
       List.map_filter (\<lambda>dp. map_option whole (re_search True dp s)) DEADLINE_PATTERNS"
proof -
  have "filter (\<lambda>pat. emitted_task pat s \<noteq> None) TASK_PATTERNS =
        filter (\<lambda>pat. re_search False pat s \<noteq> None) TASK_PATTERNS"
    by (rule filter_cong) (simp_all add: emitted_task_None)
  then show ?thesis
    by (simp add: sentence_step_result length_map_filter)
qed

section \<open>Totality and shape of the fallback record\<close>




section \<open>Defaults of the model extraction\<close>

text \<open>
  C6: when the text of the model's response has a first "{" and a last "}" and the
  substring between them (inclusive) parses as a JSON object, the extraction returns a
  dict in which every key of the object keeps its value and each of the five keys
  summary, action_points, tasks, deadlines and speakers that the object omits has its
  default: "No summary available." for the summary, the empty list for the others.
\<close>

theorem tier1_defaults:
  assumes "gemini_model e"
    and "generate_content e (length (calls w)) (ExtractCall text) = Inr t"
    and "str_find CHR ''{'' (text_or_empty t) = Some i"
    and "str_rfind CHR ''}'' (text_or_empty t) = Some j"
    and "json_loads e (take (j + 1 - i) (drop i (text_or_empty t))) = Inr (JObj parsed)"
  shows "\<exists>d. gemini_extract_structured e text w = (Inr d, w\<lparr>calls := calls w @ [ExtractCall text]\<rparr>) \<and>
           (\<forall>k. map_of d k = (case map_of parsed k of Some v \<Rightarrow> Some v | None \<Rightarrow> map_of DEFAULTS k)) \<and>
           set (map fst DEFAULTS) \<subseteq> dom (map_of d)"
proof -
  have "gemini_extract_structured e text w =
      (Inr (sanity_defaults parsed), w\<lparr>calls := calls w @ [ExtractCall text]\<rparr>)"
    using assms by (simp add: gemini_extract_structured_def call_model_def parse_response_def)
  moreover have "set (map fst DEFAULTS) \<subseteq> dom (map_of (sanity_defaults parsed))"
    by (auto simp: map_of_sanity_defaults DEFAULTS_def dom_def split: option.splits)
  ultimately show ?thesis by (simp add: map_of_sanity_defaults)
qed

theorem tier1_defaults_witness:
  "gemini_model sample_env \<and>
   generate_content sample_env (length (calls empty_world)) (ExtractCall ''hi'') =
     Inr (Some ''Here: {} done'') \<and>
   str_find CHR ''{'' (text_or_empty (Some ''Here: {} done'')) = Some 6 \<and>
   str_rfind CHR ''}'' (text_or_empty (Some ''Here: {} done'')) = Some 7 \<and>
   json_loads sample_env (take (7 + 1 - 6) (drop 6 (text_or_empty (Some ''Here: {} done'')))) =
     Inr (JObj []) \<and>
   (\<exists>d. gemini_extract_structured sample_env ''hi'' empty_world =
          (Inr d, empty_world\<lparr>calls := calls empty_world @ [ExtractCall ''hi'']\<rparr>) \<and>
        (\<forall>k. map_of d k = map_of DEFAULTS k))"
proof -
  have h1: "gemini_model sample_env" by (simp add: sample_env_def)
  have h2: "generate_content sample_env (length (calls empty_world)) (ExtractCall ''hi'') =
     Inr (Some ''Here: {} done'')" by (simp add: sample_env_def)
  have h3: "str_find CHR ''{'' (text_or_empty (Some ''Here: {} done'')) = Some 6"
    by (simp add: str_find_def text_or_empty_def)
  have h4: "str_rfind CHR ''}'' (text_or_empty (Some ''Here: {} done'')) = Some 7"
    by (simp add: str_rfind_def text_or_empty_def)
  have h5: "json_loads sample_env (take (7 + 1 - 6) (drop 6 (text_or_empty (Some ''Here: {} done'')))) =
     Inr (JObj [])" by (simp add: sample_env_def text_or_empty_def)
  from tier1_defaults [OF h1 h2 h3 h4 h5] obtain d where
    d: "gemini_extract_structured sample_env ''hi'' empty_world =
          (Inr d, empty_world\<lparr>calls := calls empty_world @ [ExtractCall ''hi'']\<rparr>)"
    and k: "\<forall>k. map_of d k = (case map_of [] k of Some v \<Rightarrow> Some v | None \<Rightarrow> map_of DEFAULTS k)"
    by blast
  from k have "\<forall>k. map_of d k = map_of DEFAULTS k" by simp
  with d h1 h2 h3 h4 h5 show ?thesis by blast
qed

section \<open>The report on failed generations\<close>




section \<open>The size of the upload\<close>

text \<open>
  C3 does not hold: \<open>MAX_UPLOAD_BYTES\<close> is never compared with anything.  An upload
  of one byte more than the limit is copied to the temporary file in full, and the
  request goes on to the conversion.
\<close>

theorem oversized_upload_is_saved:
  "MAX_UPLOAD_BYTES < length (replicate (MAX_UPLOAD_BYTES + 1) (CHR 0x00)) \<and>
   save_upload e \<lparr>filename = Some ''big.mp3'',
                   content = replicate (MAX_UPLOAD_BYTES + 1) (CHR 0x00),
                   io_fault_after = None\<rparr> w =
     (Inr (gettempdir e @ ''/up_big.mp3''),
      w\<lparr>files := (files w)(gettempdir e @ ''/up_big.mp3'' \<mapsto>
                                replicate (MAX_UPLOAD_BYTES + 1) (CHR 0x00))\<rparr>)"
proof -
  let ?u = "\<lparr>filename = Some ''big.mp3'', content = replicate (MAX_UPLOAD_BYTES + 1) (CHR 0x00),
             io_fault_after = None\<rparr>"
  have "io_fault_after ?u = None" by simp
  from save_upload_no_fault [OF this, of e w]
  have "save_upload e ?u w =
      (Inr (tmp_path_of e ?u), w\<lparr>files := (files w)(tmp_path_of e ?u \<mapsto> content ?u)\<rparr>)" .
  moreover have "tmp_path_of e ?u = gettempdir e @ ''/up_big.mp3''"
    by (simp add: tmp_path_of_def)
  moreover have "content ?u = replicate (MAX_UPLOAD_BYTES + 1) (CHR 0x00)" by simp
  ultimately show ?thesis by (simp only: length_replicate) simp
qed

section \<open>The note of the response\<close>

text \<open>
  C10: in every successful response the note is a string: it is empty when the
  extraction by the model succeeded, and it is "Note: Gemini failed, using local
  extraction instead. (...)" with the message of the failure, so not empty and starting
  with "Note: Gemini failed", when the model extraction failed and the record comes from
  the local fallback extractor.
\<close>

theorem note_reports_fallback:
  assumes "summarize_meeting e u tgt w = (Inr resp, w')"
  shows "case fst (gemini_extract_structured e (resp_transcript resp) w) of
           Inr extracted \<Rightarrow>
             resp_note resp = [] \<and>
             resp_summary resp = dict_get_default extracted ''summary'' (JStr [])
         | Inl x \<Rightarrow>
             resp_note resp =
               ''Note: Gemini failed, using local extraction instead. ('' @ exc_str x @ '')'' \<and>
             startswith (resp_note resp) ''Note: Gemini failed'' \<and>
             (\<exists>rec. local_extract (resp_transcript resp) = Inr rec \<and>
                    resp_summary resp = JStr (summary rec))"
proof -
  from summarize_Inr [OF assms] obtain w0 w2 where c: "calls w0 = calls w"
    and r: "respond e (resp_transcript resp) (resp_diarization resp) tgt w0 = (Inr resp, w2)"
    by blast
  from respond_Inr [OF r] obtain nt extracted w1 where
    x: "extract_with_fallback e (resp_transcript resp) w0 = (Inr (nt, extracted), w1)"
    and n: "resp_note resp = nt"
    and s: "resp_summary resp = dict_get_default extracted ''summary'' (JStr [])"
    by blast
  obtain g wg where g: "gemini_extract_structured e (resp_transcript resp) w0 = (g, wg)"
    by (cases "gemini_extract_structured e (resp_transcript resp) w0")
  then have fg: "fst (gemini_extract_structured e (resp_transcript resp) w) = g"
    using extract_structured_calls_only [OF c, of e "resp_transcript resp"] by simp
  show ?thesis
  proof (cases g)
    case (Inr d)
    with x g have "nt = []" "extracted = d" by (simp_all add: extract_with_fallback_def)
    with n s fg Inr show ?thesis by simp
  next
    case (Inl y)
    with x g obtain rec where rec: "local_extract (resp_transcript resp) = Inr rec"
      "nt = ''Note: Gemini failed, using local extraction instead. ('' @ exc_str y @ '')''"
      "extracted = record_to_dict rec"
      by (auto simp: extract_with_fallback_def split: sum.splits)
    have "dict_get_default (record_to_dict rec) ''summary'' (JStr []) = JStr (summary rec)"
      by (simp add: dict_get_default_def record_to_dict_def)
    with s rec(1,3) have a: "\<exists>rec. local_extract (resp_transcript resp) = Inr rec \<and>
        resp_summary resp = JStr (summary rec)" by auto
    have b: "resp_note resp =
        ''Note: Gemini failed, using local extraction instead. ('' @ exc_str y @ '')''"
      using n rec(2) by (simp only:)
    have c: "startswith (resp_note resp) ''Note: Gemini failed''"
      unfolding b by (rule startswith_note)
    show ?thesis unfolding fg Inl sum.case using a b c by blast
  qed
qed

theorem note_reports_fallback_witness:
  "\<exists>resp w'. summarize_meeting (sample_env\<lparr>gemini_model := False\<rparr>) sample_upload None empty_world =
       (Inr resp, w') \<and>
     resp_transcript resp = ''Al will go.'' \<and>
     fst (gemini_extract_structured (sample_env\<lparr>gemini_model := False\<rparr>) ''Al will go.'' empty_world) =
       Inl (RuntimeError ''Gemini model not initialized (API key missing or invalid).'') \<and>
     resp_note resp =
       ''Note: Gemini failed, using local extraction instead. (Gemini model not initialized (API key missing or invalid).)'' \<and>
     resp_summary resp = JStr ''Al will go.''"
proof -
  have ev: "case summarize_meeting (sample_env\<lparr>gemini_model := False\<rparr>) sample_upload None empty_world of
      (Inl f, w') \<Rightarrow> False | (Inr resp, w') \<Rightarrow> resp_transcript resp = ''Al will go.''"
    by (simp add: endpoint_defs sample_env_def sample_upload_def empty_world_def strip_samples
        local_extract_al)
  then obtain resp w' where run:
    "summarize_meeting (sample_env\<lparr>gemini_model := False\<rparr>) sample_upload None empty_world = (Inr resp, w')"
    and t: "resp_transcript resp = ''Al will go.''"
    by (auto split: prod.splits sum.splits)
  have g: "fst (gemini_extract_structured (sample_env\<lparr>gemini_model := False\<rparr>) ''Al will go.'' empty_world) =
       Inl (RuntimeError ''Gemini model not initialized (API key missing or invalid).'')"
    by (simp add: gemini_extract_structured_def)
  from note_reports_fallback [OF run] t g
  have "resp_note resp =
       ''Note: Gemini failed, using local extraction instead. (Gemini model not initialized (API key missing or invalid).)''"
    and "resp_summary resp = JStr ''Al will go.''"
    by (simp_all add: local_extract_al)
  with run t g show ?thesis by blast
qed

section \<open>Translation\<close>

text \<open>
  C7: the condition under which the endpoint translates is that a target language is
  given and its lower-case form is none of "none", "original", "auto" and the empty
  string.  When it does not hold, the request makes no translation call and the
  translated summary of a response is null.  When it holds, the translated summary is
  what \<open>gemini_translate_summary\<close> returns for the summary; and that is the
  translation when the model returns a non-blank text, and the summary itself,
  unchanged, when the call fails or the text is blank (or no model is available).
\<close>

theorem translation_on_request_only:
  "(wants_translation tgt \<longleftrightarrow>
      (\<exists>l. tgt = Some l \<and> lower l \<notin> {''none'', ''original'', ''auto'', ''''})) \<and>
   (summarize_meeting e u tgt w = (r, w') \<longrightarrow> \<not> wants_translation tgt \<longrightarrow>
      (\<exists>new. calls w' = calls w @ new \<and> (\<forall>c \<in> set new. \<not> is_translate c)) \<and>
      (\<forall>resp. r = Inr resp \<longrightarrow> resp_translated_summary resp = JNull)) \<and>
   (summarize_meeting e u tgt w = (Inr resp, w') \<longrightarrow> wants_translation tgt \<longrightarrow>
      (\<exists>w3. resp_translated_summary resp =
              fst (gemini_translate_summary e (resp_summary resp) (the tgt) w3))) \<and>
   fst (gemini_translate_summary e s l w3) =
     (if gemini_model e \<and> l \<noteq> []
      then (case generate_content e (length (calls w3)) (TranslateCall s l) of
              Inl x \<Rightarrow> s
            | Inr t \<Rightarrow> if strip (text_or_empty t) \<noteq> [] then JStr (strip (text_or_empty t)) else s)
      else s)"
proof (intro conjI impI)
  show "wants_translation tgt \<longleftrightarrow>
      (\<exists>l. tgt = Some l \<and> lower l \<notin> {''none'', ''original'', ''auto'', ''''})"
    by (cases tgt) (auto simp: wants_translation_def lower_Nil_iff)
next
  assume "summarize_meeting e u tgt w = (r, w')" "\<not> wants_translation tgt"
  from summarize_no_translation [OF this(2,1)]
  show "\<exists>new. calls w' = calls w @ new \<and> (\<forall>c \<in> set new. \<not> is_translate c)"
    and "\<forall>resp. r = Inr resp \<longrightarrow> resp_translated_summary resp = JNull"
    by (simp_all add: quiet_def)
next
  assume run: "summarize_meeting e u tgt w = (Inr resp, w')" and wants: "wants_translation tgt"
  from summarize_Inr [OF run] obtain w0 w2 where
    "respond e (resp_transcript resp) (resp_diarization resp) tgt w0 = (Inr resp, w2)" by blast
  from respond_Inr [OF this] wants obtain w3 where
    "gemini_translate_summary e (resp_summary resp) (the tgt) w3 = (resp_translated_summary resp, w2)"
    by auto
  then have "resp_translated_summary resp =
      fst (gemini_translate_summary e (resp_summary resp) (the tgt) w3)" by simp
  then show "\<exists>w3. resp_translated_summary resp =
      fst (gemini_translate_summary e (resp_summary resp) (the tgt) w3)" by blast
next
  show "fst (gemini_translate_summary e s l w3) =
     (if gemini_model e \<and> l \<noteq> []
      then (case generate_content e (length (calls w3)) (TranslateCall s l) of
              Inl x \<Rightarrow> s
            | Inr t \<Rightarrow> if strip (text_or_empty t) \<noteq> [] then JStr (strip (text_or_empty t)) else s)
      else s)"
    by (rule translate_result)
qed

theorem translation_on_request_only_witness:
  "\<not> wants_translation None \<and> wants_translation (Some ''Spanish'') \<and>
   (\<exists>resp w'. summarize_meeting sample_env sample_upload None empty_world = (Inr resp, w') \<and>
      resp_translated_summary resp = JNull \<and> filter is_translate (calls w') = []) \<and>
   (\<exists>resp w' w3. summarize_meeting sample_env sample_upload (Some ''Spanish'') empty_world = (Inr resp, w') \<and>
      resp_translated_summary resp =
        fst (gemini_translate_summary sample_env (resp_summary resp) ''Spanish'' w3))"
proof -
  have n: "\<not> wants_translation None" by (simp add: wants_translation_def)
  have y: "wants_translation (Some ''Spanish'')"
    by (simp add: wants_translation_def strip_samples)
  from sample_run_plain obtain resp w' where
    run: "summarize_meeting sample_env sample_upload None empty_world = (Inr resp, w')"
    by (auto split: prod.splits sum.splits)
  from translation_on_request_only
    [where tgt = None and e = sample_env and u = sample_upload and w = empty_world
       and r = "Inr resp" and w' = w'] run n
  have "\<exists>new. calls w' = calls empty_world @ new \<and> (\<forall>c \<in> set new. \<not> is_translate c)"
    and t: "resp_translated_summary resp = JNull" by blast+
  then have q: "filter is_translate (calls w') = []"
    by (auto simp: empty_world_def filter_empty_conv)
  from sample_run_spanish obtain resp2 w2 where
    run2: "summarize_meeting sample_env sample_upload (Some ''Spanish'') empty_world = (Inr resp2, w2)"
    by (auto split: prod.splits sum.splits)
  from translation_on_request_only
    [where tgt = "Some ''Spanish''" and e = sample_env and u = sample_upload and w = empty_world
       and resp = resp2 and w' = w2] run2 y
  obtain w3 where "resp_translated_summary resp2 =
      fst (gemini_translate_summary sample_env (resp_summary resp2) (the (Some ''Spanish'')) w3)"
    by blast
  then have "resp_translated_summary resp2 =
      fst (gemini_translate_summary sample_env (resp_summary resp2) ''Spanish'' w3)" by simp
  with n y run t q run2 show ?thesis by blast
qed

section \<open>The temporary files\<close>

text \<open>
  C8 as stated fails.  The cleanup is best-effort: an exception of \<open>unlink\<close> is
  swallowed, so when the files cannot be deleted a successful request leaves both
  behind.  And the upload is copied before the guarded region begins: when the copy
  raises, the file that \<open>open\<close> created stays.
\<close>

theorem cleanup_counterexample:
  "\<not> isl (fst (summarize_meeting stuck_env sample_upload None empty_world)) \<and>
   files (snd (summarize_meeting stuck_env sample_upload None empty_world)) ''/tmp/up_a'' =
     Some ''xyz'' \<and>
   files (snd (summarize_meeting stuck_env sample_upload None empty_world)) ''/tmp/up_a.wav'' =
     Some ''RIFF'' \<and>
   fst (summarize_meeting sample_env faulty_upload None empty_world) =
     Inl (Unhandled (LibraryError ''I/O error'')) \<and>
   files (snd (summarize_meeting sample_env faulty_upload None empty_world)) ''/tmp/up_a'' =
     Some []"
proof -
  have a: "case summarize_meeting stuck_env sample_upload None empty_world of
      (Inl f, w') \<Rightarrow> False
    | (Inr resp, w') \<Rightarrow> files w' ''/tmp/up_a'' = Some ''xyz'' \<and>
        files w' ''/tmp/up_a.wav'' = Some ''RIFF''"
    by (simp add: endpoint_defs stuck_env_def sample_env_def sample_upload_def empty_world_def
        strip_samples)
  have b: "summarize_meeting sample_env faulty_upload None empty_world =
      (Inl (Unhandled (LibraryError ''I/O error'')),
       \<lparr>files = [''/tmp/up_a'' \<mapsto> []], calls = []\<rparr>)"
    by (simp add: summarize_meeting_def save_upload_def save_loop_fault0 tmp_path_of_def
        faulty_upload_def sample_upload_def sample_env_def empty_world_def)
  from a show ?thesis unfolding b by (auto split: prod.splits sum.splits)
qed

text \<open>
  C8, amended: once the upload has been saved, every exit of the request (a response, a
  failed conversion that left no file, a failed transcription, an empty transcript, any
  exception of the later stages) leaves the files as they were before the request,
  without the upload temp file and, when the conversion returned, without the WAV file,
  provided the deletions themselves do not fail.
\<close>

theorem cleanup_after_save:
  assumes save: "save_upload e u w = (Inr tmp, w1)"
    and unl: "\<forall>p. \<not> unlink_fails e p"
    and exp: "\<forall>a x left. export_wav e a = Inl (x, left) \<longrightarrow> left = None"
    and run: "summarize_meeting e u tgt w = (r, w')"
  shows "files w' = (files w)(tmp := None) \<or>
         files w' = (files w)(tmp := None, with_suffix_wav e tmp := None)"
proof -
  from summarize_stages [OF run] save obtain wavopt w2 where
    p: "pipeline e tmp tgt w1 = (r, wavopt, w2)" and w': "w' = cleanup e tmp wavopt w2"
    by auto
  from save obtain b where f1: "files w1 = (files w)(tmp \<mapsto> b)"
    by (auto simp: save_upload_def Let_def split: prod.splits option.splits if_splits)
  from pipeline_files [OF exp p] show ?thesis
  proof (elim disjE exE conjE)
    assume "wavopt = None" "files w2 = files w1"
    with w' f1 cleanup_files [OF unl, of tmp wavopt w2] show ?thesis by simp
  next
    fix c assume "wavopt = Some (with_suffix_wav e tmp)"
      "files w2 = (files w1)(with_suffix_wav e tmp \<mapsto> c)"
    with w' f1 cleanup_files [OF unl, of tmp wavopt w2]
    have "files w' = (files w)(tmp := None, with_suffix_wav e tmp := None)"
      by (auto simp: fun_eq_iff)
    then show ?thesis by simp
  qed
qed

theorem cleanup_after_save_witness:
  "save_upload sample_env sample_upload empty_world =
     (Inr ''/tmp/up_a'', \<lparr>files = [''/tmp/up_a'' \<mapsto> ''xyz''], calls = []\<rparr>) \<and>
   (\<exists>r w'. summarize_meeting sample_env sample_upload None empty_world = (r, w') \<and>
      (files w' = (files empty_world)(''/tmp/up_a'' := None) \<or>
       files w' = (files empty_world)(''/tmp/up_a'' := None,
                                       with_suffix_wav sample_env ''/tmp/up_a'' := None)))"
proof -
  have save: "save_upload sample_env sample_upload empty_world =
     (Inr ''/tmp/up_a'', \<lparr>files = [''/tmp/up_a'' \<mapsto> ''xyz''], calls = []\<rparr>)"
    by (simp add: save_upload_no_fault sample_upload_def tmp_path_of_def sample_env_def
        empty_world_def)
  have unl: "\<forall>p. \<not> unlink_fails sample_env p" by (simp add: sample_env_def)
  have exp: "\<forall>a x left. export_wav sample_env a = Inl (x, left) \<longrightarrow> left = None"
    by (simp add: sample_env_def)
  obtain r w' where run: "summarize_meeting sample_env sample_upload None empty_world = (r, w')"
    by (cases "summarize_meeting sample_env sample_upload None empty_world")
  from cleanup_after_save [OF save unl exp run] save run show ?thesis by blast
qed

end
